theory Spec2Isabelle
  imports Main
begin

section \<open>JavaScript values\<close>

text \<open>
  A JavaScript string is a sequence of UTF-16 code units; it is modelled as the list of
  their values. \<open>ascii\<close> writes a text of the source that is all ASCII; the Arabic
  texts of the source are written out unit by unit.
\<close>

type_synonym jstring = "nat list"

primrec ascii :: "string \<Rightarrow> jstring" where
  "ascii [] = []"
| "ascii (c # cs) = of_char c # ascii cs"

text \<open>
  The value \<^verbatim>\<open>JSON.parse\<close> returns. A number carries its rendering \<^verbatim>\<open>String(n)\<close>, the
  only thing the program does with it. \<^verbatim>\<open>undefined\<close> is \<open>None\<close> of \<open>js_value\<close>.
\<close>

datatype json =
  JNull | JBool bool | JNum jstring | JStr jstring | JArr "json list" | JObj "(jstring \<times> json) list"

type_synonym js_value = "json option"

text \<open>A thrown value; the program only ever reads its \<^verbatim>\<open>message\<close>.\<close>

datatype js_error = JsError jstring

fun error_message :: "js_error \<Rightarrow> jstring" where
  "error_message (JsError m) = m"

text \<open>
  Property read \<^verbatim>\<open>v.k\<close>, for the names the program reads (\<^verbatim>\<open>steps\<close>, \<^verbatim>\<open>files\<close>,
  \<^verbatim>\<open>thought\<close>, \<^verbatim>\<open>action\<close>, \<^verbatim>\<open>type\<close>), none of which is inherited from a prototype:
  it throws on \<^verbatim>\<open>null\<close> and \<^verbatim>\<open>undefined\<close>, looks the key up in an object (the last
  binding of a repeated key wins, as in \<^verbatim>\<open>JSON.parse\<close>) and is \<^verbatim>\<open>undefined\<close> on every
  other value. The wording of the engine's own messages is implementation dependent.
\<close>

fun get_prop :: "js_value \<Rightarrow> jstring \<Rightarrow> js_error + js_value" where
  "get_prop None k =
     Inl (JsError (ascii ''Cannot read properties of undefined (reading '' @ k @ ascii '')''))"
| "get_prop (Some JNull) k =
     Inl (JsError (ascii ''Cannot read properties of null (reading '' @ k @ ascii '')''))"
| "get_prop (Some (JObj kvs)) k = Inr (map_of (rev kvs) k)"
| "get_prop (Some v) k = Inr None"

text \<open>
  The values a \<^verbatim>\<open>for (const step of v)\<close> loop visits: the elements of an array, the
  code points of a string (a surrogate pair is one of them); nothing else that
  \<^verbatim>\<open>JSON.parse\<close> returns is iterable.
\<close>

fun code_points :: "jstring \<Rightarrow> jstring list" where
  "code_points [] = []"
| "code_points [c] = [[c]]"
| "code_points (c # d # cs) =
     (if 0xD800 \<le> c \<and> c \<le> 0xDBFF \<and> 0xDC00 \<le> d \<and> d \<le> 0xDFFF
      then [c, d] # code_points cs
      else [c] # code_points (d # cs))"

fun js_iterate :: "js_value \<Rightarrow> js_error + json list" where
  "js_iterate (Some (JArr xs)) = Inr xs"
| "js_iterate (Some (JStr s)) = Inr (map JStr (code_points s))"
| "js_iterate v = Inl (JsError (ascii ''result.steps is not iterable''))"

text \<open>
  String conversion inside a template literal. An object is converted through its
  \<^verbatim>\<open>toString\<close>: the inherited one gives \<^verbatim>\<open>[object Object]\<close>, but an object that owns
  a key \<^verbatim>\<open>toString\<close> hides it behind a value that cannot be called, and the conversion
  throws. An array joins the conversions of its elements with commas, \<^verbatim>\<open>null\<close> giving
  the empty text, and throws when one of them does.
\<close>

fun throws_on_string :: "json \<Rightarrow> bool" and any_throws :: "json list \<Rightarrow> bool" where
  "throws_on_string (JObj kvs) = (ascii ''toString'' \<in> fst ` set kvs)"
| "throws_on_string (JArr xs) = any_throws xs"
| "throws_on_string v = False"
| "any_throws [] = False"
| "any_throws (x # xs) = (throws_on_string x \<or> any_throws xs)"

fun json_text :: "json \<Rightarrow> jstring" and join_elems :: "json list \<Rightarrow> jstring" where
  "json_text JNull = ascii ''null''"
| "json_text (JBool b) = (if b then ascii ''true'' else ascii ''false'')"
| "json_text (JNum s) = s"
| "json_text (JStr s) = s"
| "json_text (JArr xs) = join_elems xs"
| "json_text (JObj kvs) = ascii ''[object Object]''"
| "join_elems [] = []"
| "join_elems (x # xs) =
     (if x = JNull then [] else json_text x) @ (if xs = [] then [] else ascii '','' @ join_elems xs)"

definition js_to_string :: "js_value \<Rightarrow> js_error + jstring" where
  "js_to_string v =
     (case v of
        None \<Rightarrow> Inr (ascii ''undefined'')
      | Some j \<Rightarrow>
          if throws_on_string j then Inl (JsError (ascii ''Cannot convert object to primitive value''))
          else Inr (json_text j))"

text \<open>\<^verbatim>\<open>String.prototype.includes\<close> with a string argument.\<close>

fun starts_with :: "jstring \<Rightarrow> jstring \<Rightarrow> bool" where
  "starts_with s [] = True"
| "starts_with [] (p # ps) = False"
| "starts_with (c # cs) (p # ps) = (c = p \<and> starts_with cs ps)"

fun js_includes :: "jstring \<Rightarrow> jstring \<Rightarrow> bool" where
  "js_includes [] p = (p = [])"
| "js_includes (c # cs) p = (starts_with (c # cs) p \<or> js_includes cs p)"

text \<open>
  \<^verbatim>\<open>String.prototype.toLowerCase\<close>, exact on the letters A to Z. Every other code unit is
  left as it is: the lower-case forms that Unicode gives some of them differ, but none
  makes one of the two words the program searches for appear or disappear (the only ones
  that produce an ASCII letter give \<^verbatim>\<open>k\<close>, or \<^verbatim>\<open>i\<close> followed by a combining dot).
\<close>

definition lower_unit :: "nat \<Rightarrow> nat" where
  "lower_unit c = (if 65 \<le> c \<and> c \<le> 90 then c + 32 else c)"

definition toLowerCase :: "jstring \<Rightarrow> jstring" where
  "toLowerCase s = map lower_unit s"

text \<open>
  White space (what \<^verbatim>\<open>\s\<close> matches and \<^verbatim>\<open>trim\<close> removes: tab, line feed, vertical tab,
  form feed, carriage return, space, no-break space, U+1680, U+2000 to U+200A, the line
  and paragraph separators, U+202F, U+205F, U+3000 and the byte order mark) and the line
  terminators (what \<^verbatim>\<open>.\<close> does not match).
\<close>

definition js_space :: "nat \<Rightarrow> bool" where
  "js_space c =
     (c \<in> {9, 10, 11, 12, 13, 32, 160, 0x1680, 0x2028, 0x2029, 0x202F, 0x205F, 0x3000, 0xFEFF}
      \<or> (0x2000 \<le> c \<and> c \<le> 0x200A))"

definition line_term :: "nat \<Rightarrow> bool" where
  "line_term c = (c \<in> {10, 13, 0x2028, 0x2029})"

definition trim :: "jstring \<Rightarrow> jstring" where
  "trim s = rev (dropWhile js_space (rev (dropWhile js_space s)))"

text \<open>\<^verbatim>\<open>String.prototype.split\<close> with a separator of one code unit.\<close>

fun split_on :: "nat \<Rightarrow> jstring \<Rightarrow> jstring list" where
  "split_on sep [] = [[]]"
| "split_on sep (c # cs) =
     (if c = sep then [] # split_on sep cs
      else (c # hd (split_on sep cs)) # tl (split_on sep cs))"

section \<open>Types of the application (\<^verbatim>\<open>types.ts\<close>)\<close>

text \<open>
  \<open>Untyped v\<close> stands for a value outside the union that \<^verbatim>\<open>step.type as any\<close> lets
  through.
\<close>

datatype log_type =
  Info | Error | Success | Process | Plan | Git | Brain | Tool | Search | Map | Untyped js_value

record LogEntry =
  timestamp :: jstring
  message :: jstring
  type :: log_type

datatype JobStatus = Pending | Running | Completed | Failed

text \<open>
  The field \<^verbatim>\<open>id\<close> is \<open>job_id\<close> here. \<open>created_at\<close> holds the instant that
  \<^verbatim>\<open>new Date(created_at).getTime()\<close> reads from the string, in milliseconds; strings that
  do not parse as a date are outside the model. \<open>files\<close> holds whatever value the
  simulation hands over, so it is a \<open>js_value\<close>.
\<close>

record Job =
  job_id :: jstring
  task :: jstring
  persona :: "jstring option"
  use_search :: "bool option"
  repo_url :: "jstring option"
  status :: JobStatus
  created_at :: int
  logs :: jstring
  files :: js_value
  error :: "jstring option"
  is_simulation :: "bool option"

section \<open>Log formatter (\<^verbatim>\<open>formattedLogs\<close> of the job view)\<close>

text \<open>
  The match of \<^verbatim>\<open>/^\[(.*?)\]\s*(.*)$/\<close> against a line. \<open>scan_ts acc cs\<close> has read
  \<open>rev acc\<close> into group 1 and tries each closing bracket (code unit 93) in turn, the
  nearest first (the group is lazy); after the bracket, \<^verbatim>\<open>\s*\<close> takes all the white
  space there is and \<^verbatim>\<open>(.*)$\<close> must reach the end of the line without meeting a line
  terminator.
\<close>

definition tail_ok :: "jstring \<Rightarrow> bool" where
  "tail_ok cs = list_all (\<lambda>c. \<not> line_term c) (dropWhile js_space cs)"

fun scan_ts :: "jstring \<Rightarrow> jstring \<Rightarrow> (jstring \<times> jstring) option" where
  "scan_ts acc [] = None"
| "scan_ts acc (c # cs) =
     (if c = 93 \<and> tail_ok cs then Some (rev acc, dropWhile js_space cs)
      else if line_term c then None
      else scan_ts (c # acc) cs)"

definition ts_match :: "jstring \<Rightarrow> (jstring \<times> jstring) option" where
  "ts_match line =
     (case line of [] \<Rightarrow> None
      | c # cs \<Rightarrow> if c = 91 then scan_ts [] cs else None)"

text \<open>
  \<^verbatim>\<open>g.includes('T') ? g.split('T')[1].split('.')[0] : g\<close>, with 84 the letter T and 46
  the full stop.
\<close>

definition short_ts :: "jstring \<Rightarrow> jstring" where
  "short_ts g = (if js_includes g [84] then hd (split_on 46 (split_on 84 g ! 1)) else g)"

definition classify :: "jstring \<Rightarrow> log_type" where
  "classify msg =
     (if js_includes msg (ascii ''[ERROR]'') \<or> js_includes (toLowerCase msg) (ascii ''failed'')
        then Error
      else if js_includes msg (ascii ''[SUCCESS]'')
              \<or> js_includes (toLowerCase msg) (ascii ''completed'')
        then Success
      else if js_includes msg (ascii ''[GIT]'') then Git
      else if js_includes msg (ascii ''[BRAIN]'') then Brain
      else if js_includes msg (ascii ''[PLAN]'') \<or> js_includes msg (ascii ''[STEP'') then Plan
      else if js_includes msg (ascii ''[SYSTEM]'') \<or> js_includes msg (ascii ''[CMD]'') then Process
      else Info)"

definition format_line :: "jstring \<Rightarrow> LogEntry" where
  "format_line line =
     (let (ts, msg) = (case ts_match line of
                         Some (g1, g2) \<Rightarrow> (short_ts g1, g2)
                       | None \<Rightarrow> ([], line))
      in \<lparr>timestamp = ts, message = msg, type = classify msg\<rparr>)"

definition formattedLogs :: "jstring \<Rightarrow> LogEntry list" where
  "formattedLogs log_text =
     map format_line (filter (\<lambda>l. trim l \<noteq> []) (split_on 10 log_text))"

subsection \<open>What the formatter is measured against\<close>

text \<open>
  \<open>occurs p s\<close>: \<open>p\<close> is a contiguous part of \<open>s\<close>. \<open>occurs_ci w s\<close>, for a word \<open>w\<close>
  of small letters: some contiguous part of \<open>s\<close> spells \<open>w\<close>, each letter small or
  capital (a capital letter is 32 below its small letter).
\<close>

definition occurs :: "jstring \<Rightarrow> jstring \<Rightarrow> bool" where
  "occurs p s = (\<exists>before after. s = before @ p @ after)"

definition same_letter :: "nat \<Rightarrow> nat \<Rightarrow> bool" where
  "same_letter c w = (c = w \<or> c + 32 = w)"

definition occurs_ci :: "jstring \<Rightarrow> jstring \<Rightarrow> bool" where
  "occurs_ci w s = (\<exists>u. occurs u s \<and> list_all2 same_letter u w)"

text \<open>
  The regular expression read as a specification. \<open>ts_candidate line g1 g2\<close>: the line
  is an opening bracket, \<open>g1\<close>, a closing bracket, white space and \<open>g2\<close>, with no line
  terminator in either group. Of all candidates the match is the one a backtracking
  matcher finds first: the shortest group 1 (lazy), then the longest run of white space
  (greedy), which leaves the shortest group 2.
\<close>

definition ts_candidate :: "jstring \<Rightarrow> jstring \<Rightarrow> jstring \<Rightarrow> bool" where
  "ts_candidate line g1 g2 =
     (\<exists>ws. line = [91] @ g1 @ [93] @ ws @ g2
         \<and> (\<forall>c\<in>set g1. \<not> line_term c) \<and> (\<forall>c\<in>set ws. js_space c) \<and> (\<forall>c\<in>set g2. \<not> line_term c))"

definition regex_ts_match :: "jstring \<Rightarrow> jstring \<Rightarrow> jstring \<Rightarrow> bool" where
  "regex_ts_match line g1 g2 =
     (ts_candidate line g1 g2
      \<and> (\<forall>h1 h2. ts_candidate line h1 h2 \<longrightarrow>
            length g1 < length h1 \<or> (length g1 = length h1 \<and> length g2 \<le> length h2)))"

text \<open>Lines joined by line feeds, the text that \<^verbatim>\<open>split('\n')\<close> takes apart again.\<close>

fun join_lines :: "jstring list \<Rightarrow> jstring" where
  "join_lines [] = []"
| "join_lines [l] = l"
| "join_lines (l # l' # ls) = l @ 10 # join_lines (l' # ls)"

text \<open>
  A bracketed value that is a date and a time of day joined by the separator T: the date
  is written with digits and hyphens, and no further T follows.
\<close>

definition date_unit :: "nat \<Rightarrow> bool" where
  "date_unit c = ((48 \<le> c \<and> c \<le> 57) \<or> c = 45)"

definition date_time :: "jstring \<Rightarrow> jstring \<Rightarrow> jstring \<Rightarrow> bool" where
  "date_time g day time_of_day =
     (g = day @ [84] @ time_of_day \<and> day \<noteq> [] \<and> list_all date_unit day \<and> 84 \<notin> set time_of_day)"

text \<open>
  The pattern as the specification writes it, \<^verbatim>\<open>^\[(.+?)\]\s*(.*)$\<close>: group 1 takes at
  least one character before the closing bracket is looked for.
\<close>

definition spec_ts_match :: "jstring \<Rightarrow> (jstring \<times> jstring) option" where
  "spec_ts_match line =
     (case line of
        c # d # cs \<Rightarrow> if c = 91 \<and> \<not> line_term d then scan_ts [d] cs else None
      | _ \<Rightarrow> None)"

section \<open>Simulation engine (\<^verbatim>\<open>simulateAgentExecution\<close>)\<close>

text \<open>
  The run is modelled by the sequence of callback invocations it makes. Its inputs are
  what the outside world answers: \<open>reply\<close>, the outcome of awaiting
  \<^verbatim>\<open>generateContent\<close> (a rejection, or the \<^verbatim>\<open>text\<close> of the response, which may be
  undefined); \<open>parse\<close>, the function \<^verbatim>\<open>JSON.parse\<close>; and \<open>clock k\<close>, the reading of
  \<^verbatim>\<open>new Date().toLocaleTimeString('ar-EG')\<close> at the \<open>k\<close>-th call of \<^verbatim>\<open>onLogUpdate\<close>.
  The task, repository, persona and search flag only shape the prompt. The pause before
  each step is real time and is not modelled; the order of the calls is.
\<close>

datatype event = OnLogUpdate LogEntry | OnCompletion js_value

text \<open>The fixed texts of the source, code unit by code unit.\<close>

definition system_notice :: jstring where
  "system_notice =
     ascii ''[SYSTEM] ''
     @ [0x062A, 0x0639, 0x0630, 0x0631, 0x0020, 0x0627, 0x0644, 0x0627, 0x062A, 0x0635,
      0x0627, 0x0644, 0x0020, 0x0628, 0x0640, 0x0020, 0x0041, 0x0050, 0x0049, 0x0020,
      0x0627, 0x0644, 0x062E, 0x0644, 0x0641, 0x064A, 0x002E, 0x0020, 0x0627, 0x0644,
      0x0627, 0x0646, 0x062A, 0x0642, 0x0627, 0x0644, 0x0020, 0x0625, 0x0644, 0x0649,
      0x0020, 0x0646, 0x0645, 0x0637, 0x0020, 0x0627, 0x0644, 0x0645, 0x062D, 0x0627,
      0x0643, 0x0627, 0x0629, 0x0020, 0x0627, 0x0644, 0x0645, 0x062D, 0x0644, 0x064A,
      0x0629, 0x0020, 0x0627, 0x0644, 0x0645, 0x0633, 0x062A, 0x0642, 0x0644, 0x0629]
     @ ascii ''...''"

definition brain_notice :: jstring where
  "brain_notice =
     ascii ''[BRAIN] ''
     @ [0x062C, 0x0627, 0x0631, 0x0650, 0x0020, 0x062A, 0x0641, 0x0639, 0x064A, 0x0644,
      0x0020, 0x0627, 0x0644, 0x0631, 0x0648, 0x0627, 0x0628, 0x0637, 0x0020, 0x0627,
      0x0644, 0x0639, 0x0635, 0x0628, 0x064A, 0x0629, 0x0020, 0x0644, 0x0645, 0x062D,
      0x0627, 0x0643, 0x0627, 0x0629, 0x0020, 0x0627, 0x0644, 0x0645, 0x0647, 0x0645,
      0x0629, 0x0020, 0x0630, 0x0647, 0x0646, 0x064A, 0x0627, 0x064B]
     @ ascii ''...''"

definition failure_prefix :: jstring where
  "failure_prefix =
     [0x0641, 0x0634, 0x0644, 0x0020, 0x0627, 0x0644, 0x0645, 0x062D, 0x0627, 0x0643,
      0x0627, 0x0629, 0x0020, 0x0627, 0x0644, 0x0645, 0x062D, 0x0644, 0x064A, 0x0629,
      0x003A, 0x0020]"

definition system_entry :: "jstring \<Rightarrow> LogEntry" where
  "system_entry t = \<lparr>timestamp = t, message = system_notice, type = Process\<rparr>"

definition brain_entry :: "jstring \<Rightarrow> LogEntry" where
  "brain_entry t = \<lparr>timestamp = t, message = brain_notice, type = Brain\<rparr>"

definition error_entry :: "jstring \<Rightarrow> js_error \<Rightarrow> LogEntry" where
  "error_entry t e = \<lparr>timestamp = t, message = failure_prefix @ error_message e, type = Error\<rparr>"

definition step_type :: "js_value \<Rightarrow> log_type" where
  "step_type v =
     (if v = Some (JStr (ascii ''info'')) then Info
      else if v = Some (JStr (ascii ''error'')) then Error
      else if v = Some (JStr (ascii ''success'')) then Success
      else if v = Some (JStr (ascii ''process'')) then Process
      else if v = Some (JStr (ascii ''plan'')) then Plan
      else if v = Some (JStr (ascii ''git'')) then Git
      else if v = Some (JStr (ascii ''brain'')) then Brain
      else if v = Some (JStr (ascii ''tool'')) then Tool
      else if v = Some (JStr (ascii ''search'')) then Search
      else if v = Some (JStr (ascii ''map'')) then Map
      else Untyped v)"

definition default_text :: jstring where
  \<open>default_text = ascii ''{"steps":[], "files":[]}''\<close>

text \<open>\<^verbatim>\<open>JSON.parse(response.text || '{"steps":[], "files":[]}')\<close>\<close>

definition response_json :: "(jstring \<Rightarrow> js_error + json) \<Rightarrow> jstring option \<Rightarrow> js_error + json" where
  "response_json parse body_text =
     parse (case body_text of None \<Rightarrow> default_text | Some t \<Rightarrow> if t = [] then default_text else t)"

text \<open>
  One round of the \<^verbatim>\<open>for\<close> loop. It first reads \<^verbatim>\<open>step.type\<close> to choose the
  pause, which throws when the step is \<^verbatim>\<open>null\<close>; it then builds the entry, converting
  \<^verbatim>\<open>step.thought\<close> and \<^verbatim>\<open>step.action\<close> to strings in the template literal, each of
  which may throw. The result is the entry to hand to \<^verbatim>\<open>onLogUpdate\<close>, or the exception.
\<close>

definition step_log :: "jstring \<Rightarrow> json \<Rightarrow> js_error + LogEntry" where
  "step_log t st =
     (case get_prop (Some st) (ascii ''type'') of
        Inl e \<Rightarrow> Inl e
      | Inr ty \<Rightarrow>
          (case get_prop (Some st) (ascii ''thought'') of
             Inl e \<Rightarrow> Inl e
           | Inr thought \<Rightarrow>
               (case js_to_string thought of
                  Inl e \<Rightarrow> Inl e
                | Inr thought_text \<Rightarrow>
                    (case get_prop (Some st) (ascii ''action'') of
                       Inl e \<Rightarrow> Inl e
                     | Inr act \<Rightarrow>
                         (case js_to_string act of
                            Inl e \<Rightarrow> Inl e
                          | Inr action_text \<Rightarrow>
                              Inr \<lparr>timestamp = t,
                                   message = thought_text @ ascii '' -> '' @ action_text,
                                   type = step_type ty\<rparr>)))))"

text \<open>
  The loop: the calls made, and the exception that ended it, if any. \<open>clock k\<close> is the
  time of day shown at the \<open>k\<close>-th call of \<^verbatim>\<open>onLogUpdate\<close>.
\<close>

fun run_steps :: "(nat \<Rightarrow> jstring) \<Rightarrow> nat \<Rightarrow> json list \<Rightarrow> event list \<times> js_error option" where
  "run_steps clock k [] = ([], None)"
| "run_steps clock k (st # rest) =
     (case step_log (clock k) st of
        Inl e \<Rightarrow> ([], Some e)
      | Inr entry \<Rightarrow>
          (let (evs, r) = run_steps clock (Suc k) rest
           in (OnLogUpdate entry # evs, r)))"

text \<open>
  The same round stated through what the step holds. \<open>field_of\<close> reads a field of a
  step that is not \<^verbatim>\<open>null\<close>. \<open>step_fails\<close> says when the round throws: the step is
  \<^verbatim>\<open>null\<close>, or its thought or its action cannot be converted; \<open>step_error\<close> is what it
  throws then, and \<open>step_entry\<close> the entry it hands over otherwise.
\<close>

definition field_of :: "json \<Rightarrow> jstring \<Rightarrow> js_value" where
  "field_of st k = (case st of JObj kvs \<Rightarrow> map_of (rev kvs) k | _ \<Rightarrow> None)"

definition unconvertible :: "js_value \<Rightarrow> bool" where
  "unconvertible v = (case v of None \<Rightarrow> False | Some j \<Rightarrow> throws_on_string j)"

definition value_text :: "js_value \<Rightarrow> jstring" where
  "value_text v = (case v of None \<Rightarrow> (ascii ''undefined'') | Some j \<Rightarrow> json_text j)"

definition step_fails :: "json \<Rightarrow> bool" where
  "step_fails st =
     (st = JNull \<or> unconvertible (field_of st (ascii ''thought''))
      \<or> unconvertible (field_of st (ascii ''action'')))"

definition step_error :: "json \<Rightarrow> js_error" where
  "step_error st =
     (if st = JNull
      then JsError (ascii ''Cannot read properties of null (reading '' @ ascii ''type'' @ ascii '')'')
      else JsError (ascii ''Cannot convert object to primitive value''))"

definition step_entry :: "jstring \<Rightarrow> json \<Rightarrow> LogEntry" where
  "step_entry t st =
     \<lparr>timestamp = t,
      message = value_text (field_of st (ascii ''thought'')) @ ascii '' -> ''
                @ value_text (field_of st (ascii ''action'')),
      type = step_type (field_of st (ascii ''type''))\<rparr>"

text \<open>The body of the \<^verbatim>\<open>try\<close> block.\<close>

definition try_body ::
  "(jstring \<Rightarrow> js_error + json) \<Rightarrow> (nat \<Rightarrow> jstring) \<Rightarrow> js_error + jstring option
     \<Rightarrow> event list \<times> js_error option" where
  "try_body parse clock reply =
     (case reply of
        Inl e \<Rightarrow> ([], Some e)
      | Inr body_text \<Rightarrow>
          (case response_json parse body_text of
             Inl e \<Rightarrow> ([], Some e)
           | Inr result \<Rightarrow>
               (let brain = OnLogUpdate (brain_entry (clock 1)) in
                case get_prop (Some result) (ascii ''steps'') of
                  Inl e \<Rightarrow> ([brain], Some e)
                | Inr steps \<Rightarrow>
                    (case js_iterate steps of
                       Inl e \<Rightarrow> ([brain], Some e)
                     | Inr items \<Rightarrow>
                         (case run_steps clock 2 items of
                            (evs, Some e) \<Rightarrow> (brain # evs, Some e)
                          | (evs, None) \<Rightarrow>
                              (case get_prop (Some result) (ascii ''files'') of
                                 Inl e \<Rightarrow> (brain # evs, Some e)
                               | Inr fs \<Rightarrow> (brain # evs @ [OnCompletion fs], None)))))))"

text \<open>
  The whole function: the announcement, the \<^verbatim>\<open>try\<close> block, and the \<^verbatim>\<open>catch\<close> block,
  which turns the exception into one more log entry.
\<close>

definition simulateAgentExecution ::
  "(jstring \<Rightarrow> js_error + json) \<Rightarrow> (nat \<Rightarrow> jstring) \<Rightarrow> js_error + jstring option \<Rightarrow> event list" where
  "simulateAgentExecution parse clock reply =
     (let (evs, r) = try_body parse clock reply;
          announced = OnLogUpdate (system_entry (clock 0)) # evs
      in case r of
           None \<Rightarrow> announced
         | Some e \<Rightarrow> announced @ [OnLogUpdate (error_entry (clock (length announced)) e)])"

fun is_completion :: "event \<Rightarrow> bool" where
  "is_completion (OnCompletion fs) = True"
| "is_completion (OnLogUpdate l) = False"

fun is_error_log :: "event \<Rightarrow> bool" where
  "is_error_log (OnLogUpdate l) = (type l = Error)"
| "is_error_log (OnCompletion fs) = False"

section \<open>Remote job client (\<^verbatim>\<open>apiService\<close>)\<close>

text \<open>
  What a \<^verbatim>\<open>fetch\<close> can come to: a rejection, or a response with its \<^verbatim>\<open>ok\<close> flag and the
  outcome of reading its body as JSON.
\<close>

datatype 'a http_outcome = NetworkError jstring | Response bool "js_error + 'a"

definition listJobs :: "Job list http_outcome \<Rightarrow> js_error + Job list" where
  "listJobs res =
     (case res of
        NetworkError m \<Rightarrow> Inl (JsError m)
      | Response ok body \<Rightarrow> if \<not> ok then Inl (JsError (ascii ''Failed to fetch jobs'')) else body)"

definition createJob :: "jstring http_outcome \<Rightarrow> js_error + jstring" where
  "createJob res =
     (case res of
        NetworkError m \<Rightarrow> Inl (JsError m)
      | Response ok body \<Rightarrow> if \<not> ok then Inl (JsError (ascii ''Failed to create job'')) else body)"

definition deleteJob :: "unit http_outcome \<Rightarrow> js_error + unit" where
  "deleteJob res =
     (case res of
        NetworkError m \<Rightarrow> Inl (JsError m)
      | Response ok body \<Rightarrow> if \<not> ok then Inl (JsError (ascii ''Failed to delete job'')) else Inr ())"

section \<open>Orchestrator (\<^verbatim>\<open>App\<close>)\<close>

text \<open>
  The component's state. \<open>api_calls\<close> is not a variable of the program: it records, in
  order, the requests the component has sent through the remote job client.
\<close>

datatype api_call =
  ListJobs | CreateJob jstring "jstring option" | GetJob jstring | GetStatus jstring | DeleteJob jstring

record app_state =
  jobs :: "Job list"
  activeJobId :: "jstring option"
  isModalOpen :: bool
  isBackendOnline :: bool
  api_calls :: "api_call list"

fun is_delete_call :: "api_call \<Rightarrow> bool" where
  "is_delete_call (DeleteJob i) = True"
| "is_delete_call c = False"

definition initial_state :: app_state where
  "initial_state =
     \<lparr>jobs = [], activeJobId = None, isModalOpen = False, isBackendOnline = True, api_calls = []\<rparr>"

subsection \<open>Polling (\<^verbatim>\<open>fetchJobsList\<close>)\<close>

text \<open>The \<^verbatim>\<open>forEach\<close> that pushes the simulation jobs the merged list does not hold yet.\<close>

fun push_simulations :: "Job list \<Rightarrow> Job list \<Rightarrow> Job list" where
  "push_simulations merged [] = merged"
| "push_simulations merged (sim # sims) =
     push_simulations
       (if find (\<lambda>m. job_id m = job_id sim) merged = None then merged @ [sim] else merged) sims"

text \<open>
  \<^verbatim>\<open>Array.prototype.sort\<close> is stable, and the comparator orders by \<open>created_at\<close>,
  latest first.
\<close>

definition sort_jobs :: "Job list \<Rightarrow> Job list" where
  "sort_jobs js = sort_key (\<lambda>j. - created_at j) js"

definition merge_jobs :: "Job list \<Rightarrow> Job list \<Rightarrow> Job list" where
  "merge_jobs prev data =
     (let simulationJobs = filter (\<lambda>j. is_simulation j = Some True) prev;
          apiJobs = map (\<lambda>j. j\<lparr>is_simulation := Some False\<rparr>) data;
          merged = push_simulations apiJobs simulationJobs
      in sort_jobs merged)"

text \<open>
  The result is a sum so that an exception leaving the function would show; both the
  \<^verbatim>\<open>try\<close> and the \<^verbatim>\<open>catch\<close> branch end normally.
\<close>

definition fetchJobsList :: "Job list http_outcome \<Rightarrow> app_state \<Rightarrow> js_error + app_state" where
  "fetchJobsList res s =
     (let called = s\<lparr>api_calls := api_calls s @ [ListJobs]\<rparr> in
      case listJobs res of
        Inr data \<Rightarrow> Inr (called\<lparr>isBackendOnline := True, jobs := merge_jobs (jobs s) data\<rparr>)
      | Inl err \<Rightarrow> Inr (called\<lparr>isBackendOnline := False\<rparr>))"

subsection \<open>The callbacks handed to the simulation\<close>

definition on_log :: "jstring \<Rightarrow> LogEntry \<Rightarrow> Job list \<Rightarrow> Job list" where
  "on_log mockId log prev =
     map (\<lambda>j. if job_id j = mockId
               then j\<lparr>logs := logs j @ ascii ''['' @ timestamp log @ ascii ''] '' @ message log @ [10]\<rparr>
               else j) prev"

definition on_complete :: "jstring \<Rightarrow> js_value \<Rightarrow> Job list \<Rightarrow> Job list" where
  "on_complete mockId fs prev =
     map (\<lambda>j. if job_id j = mockId then j\<lparr>status := Completed, files := fs\<rparr> else j) prev"

fun deliver :: "jstring \<Rightarrow> event \<Rightarrow> Job list \<Rightarrow> Job list" where
  "deliver mockId (OnLogUpdate log) prev = on_log mockId log prev"
| "deliver mockId (OnCompletion fs) prev = on_complete mockId fs prev"

subsection \<open>Creating a job (\<^verbatim>\<open>handleCreateJob\<close>)\<close>

text \<open>
  What the outside world supplies to one call: the answers to the two requests, the six
  characters \<^verbatim>\<open>Math.random().toString(36).substr(2, 6)\<close>, the instant \<^verbatim>\<open>new Date()\<close>
  and its rendering as a time of day, and the rendering at the simulation's first log.
\<close>

record create_env =
  create_response :: "jstring http_outcome"
  list_response :: "Job list http_outcome"
  random_suffix :: jstring
  now_ms :: int
  now_time :: jstring
  sim_time :: jstring

definition offline_notice :: jstring where
  "offline_notice =
     ascii ''[SYSTEM] ''
     @ [0x0627, 0x0644, 0x0645, 0x062D, 0x0631, 0x0643, 0x0020, 0x0627, 0x0644, 0x062E,
      0x0644, 0x0641, 0x064A, 0x0020, 0x063A, 0x064A, 0x0631, 0x0020, 0x0645, 0x062A,
      0x0635, 0x0644, 0x002E, 0x0020, 0x0628, 0x062F, 0x0621, 0x0020, 0x0627, 0x0644,
      0x0645, 0x062D, 0x0627, 0x0643, 0x0627, 0x0629, 0x0020, 0x0627, 0x0644, 0x0645,
      0x062D, 0x0644, 0x064A, 0x0629, 0x0020, 0x0627, 0x0644, 0x0645, 0x0633, 0x062A,
      0x0642, 0x0644, 0x0629]
     @ ascii ''...''"

text \<open>The \<^verbatim>\<open>logs\<close> a new simulation job starts with: one line, closed by a line feed.\<close>

definition fallback_log :: "jstring \<Rightarrow> jstring" where
  "fallback_log t = ascii ''['' @ t @ ascii ''] '' @ offline_notice @ [10]"

definition new_simulation_job ::
  "jstring \<Rightarrow> jstring option \<Rightarrow> jstring option \<Rightarrow> bool option \<Rightarrow> create_env \<Rightarrow> Job" where
  "new_simulation_job task_text repo persona_text useSearch env =
     \<lparr>job_id = ascii ''sim-'' @ random_suffix env,
      task = task_text,
      persona = persona_text,
      use_search = useSearch,
      repo_url = repo,
      status = Running,
      created_at = now_ms env,
      logs = fallback_log (now_time env),
      files = Some (JArr []),
      error = None,
      is_simulation = Some True\<rparr>"

text \<open>
  The \<^verbatim>\<open>catch\<close> block. \<^verbatim>\<open>simulateAgentExecution\<close> runs up to its first \<^verbatim>\<open>await\<close> inside
  the call, so its announcement is appended before the handler returns; the rest of its
  calls arrive later, each as a step of its own (see \<open>step\<close>).
\<close>

definition simulation_fallback ::
  "jstring \<Rightarrow> jstring option \<Rightarrow> jstring option \<Rightarrow> bool option \<Rightarrow> create_env \<Rightarrow> app_state \<Rightarrow> app_state" where
  "simulation_fallback task_text repo persona_text useSearch env s =
     (let mockId = ascii ''sim-'' @ random_suffix env;
          newJob = new_simulation_job task_text repo persona_text useSearch env
      in s\<lparr>jobs := on_log mockId (system_entry (sim_time env)) (newJob # jobs s),
           activeJobId := Some mockId,
           isModalOpen := False\<rparr>)"

text \<open>The two \<^verbatim>\<open>await\<close>s of the online path are taken in one step.\<close>

definition handleCreateJob ::
  "jstring \<Rightarrow> jstring option \<Rightarrow> jstring option \<Rightarrow> bool option \<Rightarrow> create_env \<Rightarrow> app_state
     \<Rightarrow> js_error + app_state" where
  "handleCreateJob task_text repo persona_text useSearch env s =
     (if \<not> isBackendOnline s
      then Inr (simulation_fallback task_text repo persona_text useSearch env s)
      else
        (let called = s\<lparr>api_calls := api_calls s @ [CreateJob task_text repo]\<rparr> in
         case createJob (create_response env) of
           Inl err \<Rightarrow> Inr (simulation_fallback task_text repo persona_text useSearch env called)
         | Inr new_id \<Rightarrow>
             (case fetchJobsList (list_response env) (called\<lparr>isModalOpen := False\<rparr>) of
                Inl err \<Rightarrow> Inr (simulation_fallback task_text repo persona_text useSearch env
                                  (called\<lparr>isModalOpen := False\<rparr>))
              | Inr fetched \<Rightarrow> Inr (fetched\<lparr>activeJobId := Some new_id\<rparr>))))"

subsection \<open>Deleting a job (\<^verbatim>\<open>handleDeleteJob\<close>)\<close>

text \<open>\<open>confirmed\<close> is the answer to the \<^verbatim>\<open>confirm\<close> dialog.\<close>

definition handleDeleteJob :: "jstring \<Rightarrow> bool \<Rightarrow> app_state \<Rightarrow> app_state" where
  "handleDeleteJob i confirmed s =
     (if \<not> confirmed then s
      else s\<lparr>jobs := filter (\<lambda>j. job_id j \<noteq> i) (jobs s),
             activeJobId := (if activeJobId s = Some i then None else activeJobId s)\<rparr>)"

subsection \<open>Runs of the component\<close>

text \<open>
  Everything that changes the state: a poll coming back, a job being created, a delete
  click, a selection in the sidebar, and a callback of some simulation arriving.
\<close>

datatype action =
  Poll "Job list http_outcome"
| Create jstring "jstring option" "jstring option" "bool option" create_env
| Delete jstring bool
| Select jstring
| SimLog jstring LogEntry
| SimComplete jstring js_value

fun step :: "action \<Rightarrow> app_state \<Rightarrow> js_error + app_state" where
  "step (Poll res) s = fetchJobsList res s"
| "step (Create task_text repo persona_text useSearch env) s =
     handleCreateJob task_text repo persona_text useSearch env s"
| "step (Delete i confirmed) s = Inr (handleDeleteJob i confirmed s)"
| "step (Select i) s = Inr (s\<lparr>activeJobId := Some i\<rparr>)"
| "step (SimLog i log) s = Inr (s\<lparr>jobs := on_log i log (jobs s)\<rparr>)"
| "step (SimComplete i fs) s = Inr (s\<lparr>jobs := on_complete i fs (jobs s)\<rparr>)"

fun run :: "action list \<Rightarrow> app_state \<Rightarrow> js_error + app_state" where
  "run [] s = Inr s"
| "run (a # as) s = (case step a s of Inl e \<Rightarrow> Inl e | Inr s' \<Rightarrow> run as s')"

definition newest_first :: "Job list \<Rightarrow> bool" where
  "newest_first js = sorted_wrt (\<lambda>a b. created_at b \<le> created_at a) js"

text \<open>
  A creation that ends in the \<^verbatim>\<open>catch\<close> block stamps the new job with the browser's
  clock. \<open>clock_ahead\<close> says that this reading is not behind any job already listed.
\<close>

definition falls_back :: "create_env \<Rightarrow> app_state \<Rightarrow> bool" where
  "falls_back env s = (\<not> isBackendOnline s \<or> isl (createJob (create_response env)))"

fun clock_ahead :: "action \<Rightarrow> app_state \<Rightarrow> bool" where
  "clock_ahead (Create task_text repo persona_text useSearch env) s =
     (falls_back env s \<longrightarrow> list_all (\<lambda>j. created_at j \<le> now_ms env) (jobs s))"
| "clock_ahead a s = True"

fun clocks_ahead :: "action list \<Rightarrow> app_state \<Rightarrow> bool" where
  "clocks_ahead [] s = True"
| "clocks_ahead (a # as) s =
     (clock_ahead a s \<and> (case step a s of Inl e \<Rightarrow> False | Inr s' \<Rightarrow> clocks_ahead as s'))"


section \<open>Sample data\<close>

text \<open>A job and an environment to instantiate the statements below.\<close>

definition sample_job :: "jstring \<Rightarrow> int \<Rightarrow> bool option \<Rightarrow> Job" where
  "sample_job i t sim =
     \<lparr>job_id = i, task = ascii ''demo'', persona = None, use_search = None, repo_url = None,
      status = Running, created_at = t, logs = [], files = Some (JArr []), error = None,
      is_simulation = sim\<rparr>"

definition sample_env :: "jstring http_outcome \<Rightarrow> int \<Rightarrow> create_env" where
  "sample_env res t =
     \<lparr>create_response = res, list_response = NetworkError (ascii ''unreachable''),
      random_suffix = ascii ''k3x9qa'', now_ms = t, now_time = ascii ''10:00:00'', sim_time = ascii ''10:00:00''\<rparr>"

section \<open>The log formatter meets its specification\<close>

subsection \<open>Searching and classifying\<close>

lemma starts_with_iff: "starts_with s p \<longleftrightarrow> (\<exists>after. s = p @ after)"
  by (induction s p rule: starts_with.induct) auto

lemma includes_iff: "js_includes s p \<longleftrightarrow> occurs p s"
proof (induction s)
  case Nil
  then show ?case by (simp add: occurs_def)
next
  case (Cons c cs)
  have "occurs p (c # cs) \<longleftrightarrow> (\<exists>after. c # cs = p @ after) \<or> occurs p cs"
    unfolding occurs_def
  proof
    assume "\<exists>before after. c # cs = before @ p @ after"
    then obtain b a where ba: "c # cs = b @ p @ a" by blast
    show "(\<exists>after. c # cs = p @ after) \<or> (\<exists>before after. cs = before @ p @ after)"
    proof (cases b)
      case Nil
      with ba show ?thesis by auto
    next
      case (Cons b0 bs)
      with ba have "cs = bs @ p @ a" by simp
      then show ?thesis by blast
    qed
  next
    assume "(\<exists>after. c # cs = p @ after) \<or> (\<exists>before after. cs = before @ p @ after)"
    then show "\<exists>before after. c # cs = before @ p @ after"
    proof
      assume "\<exists>after. c # cs = p @ after"
      then obtain a where "c # cs = [] @ p @ a" by auto
      then show ?thesis by blast
    next
      assume "\<exists>before after. cs = before @ p @ after"
      then obtain b a where "c # cs = (c # b) @ p @ a" by auto
      then show ?thesis by blast
    qed
  qed
  with Cons show ?case by (simp add: starts_with_iff del: starts_with.simps)
qed

lemma lower_unit_small:
  "97 \<le> w \<Longrightarrow> w \<le> 122 \<Longrightarrow> lower_unit c = w \<longleftrightarrow> same_letter c w"
  by (auto simp: lower_unit_def same_letter_def)

lemma map_lower_small:
  "\<forall>c\<in>set w. 97 \<le> c \<and> c \<le> 122 \<Longrightarrow> map lower_unit u = w \<longleftrightarrow> list_all2 same_letter u w"
proof (induction u arbitrary: w)
  case Nil
  then show ?case by auto
next
  case (Cons c u)
  show ?case
  proof (cases w)
    case Nil
    then show ?thesis by simp
  next
    case (Cons d w')
    with Cons.prems have d: "97 \<le> d" "d \<le> 122" and w': "\<forall>c\<in>set w'. 97 \<le> c \<and> c \<le> 122"
      by simp_all
    from Cons.IH [OF w'] lower_unit_small [OF d] Cons show ?thesis by simp
  qed
qed

lemma includes_lower_iff:
  assumes "\<forall>c\<in>set w. 97 \<le> c \<and> c \<le> 122"
  shows "js_includes (toLowerCase s) w \<longleftrightarrow> occurs_ci w s"
proof -
  have "occurs w (map lower_unit s) \<longleftrightarrow> (\<exists>u. occurs u s \<and> map lower_unit u = w)"
  proof
    assume "occurs w (map lower_unit s)"
    then obtain b a where "map lower_unit s = b @ w @ a" by (auto simp: occurs_def)
    then obtain sb rest where r: "s = sb @ rest" "map lower_unit rest = w @ a"
      by (metis map_eq_append_conv)
    then obtain u sa where "rest = u @ sa" "map lower_unit u = w"
      by (metis map_eq_append_conv)
    with r have "s = sb @ u @ sa" "map lower_unit u = w" by simp_all
    then show "\<exists>u. occurs u s \<and> map lower_unit u = w" by (auto simp: occurs_def)
  next
    assume "\<exists>u. occurs u s \<and> map lower_unit u = w"
    then obtain u b a where "s = b @ u @ a" "map lower_unit u = w" by (auto simp: occurs_def)
    then have "map lower_unit s = map lower_unit b @ w @ map lower_unit a" by simp
    then show "occurs w (map lower_unit s)" unfolding occurs_def by blast
  qed
  then show ?thesis
    by (simp add: includes_iff toLowerCase_def occurs_ci_def map_lower_small [OF assms])
qed

lemma failed_small: "\<forall>c\<in>set (ascii ''failed''). 97 \<le> c \<and> c \<le> 122"
  by simp

lemma completed_small: "\<forall>c\<in>set (ascii ''completed''). 97 \<le> c \<and> c \<le> 122"
  by simp

text \<open>
  C6. The formatter gives every entry the type of its parsed message, and that type is
  fixed by the first rule that applies, in the order error, success, git, brain, plan,
  process, with info when none applies. The two words are found whatever the case of their
  letters; the bracketed markers are found as written. A message carrying both the error
  and the success marker is an error.
\<close>

theorem classify_first_match:
  "type (format_line l) = classify (message (format_line l))
   \<and> classify m =
     (if occurs (ascii ''[ERROR]'') m \<or> occurs_ci (ascii ''failed'') m then Error
      else if occurs (ascii ''[SUCCESS]'') m \<or> occurs_ci (ascii ''completed'') m then Success
      else if occurs (ascii ''[GIT]'') m then Git
      else if occurs (ascii ''[BRAIN]'') m then Brain
      else if occurs (ascii ''[PLAN]'') m \<or> occurs (ascii ''[STEP'') m then Plan
      else if occurs (ascii ''[SYSTEM]'') m \<or> occurs (ascii ''[CMD]'') m then Process
      else Info)
   \<and> (occurs (ascii ''[ERROR]'') m \<and> occurs (ascii ''[SUCCESS]'') m \<longrightarrow> classify m = Error)"
proof -
  have "type (format_line l) = classify (message (format_line l))"
    by (simp add: format_line_def split: option.splits prod.splits)
  moreover have "classify m =
     (if occurs (ascii ''[ERROR]'') m \<or> occurs_ci (ascii ''failed'') m then Error
      else if occurs (ascii ''[SUCCESS]'') m \<or> occurs_ci (ascii ''completed'') m then Success
      else if occurs (ascii ''[GIT]'') m then Git
      else if occurs (ascii ''[BRAIN]'') m then Brain
      else if occurs (ascii ''[PLAN]'') m \<or> occurs (ascii ''[STEP'') m then Plan
      else if occurs (ascii ''[SYSTEM]'') m \<or> occurs (ascii ''[CMD]'') m then Process
      else Info)"
    by (simp only: classify_def includes_lower_iff [OF failed_small]
          includes_lower_iff [OF completed_small])
       (simp only: includes_iff)
  ultimately show ?thesis by simp
qed

lemma occurs_ciI: "list_all2 same_letter u w \<Longrightarrow> s = before @ u @ after \<Longrightarrow> occurs_ci w s"
  unfolding occurs_ci_def occurs_def by blast

theorem classify_first_match_witness:
  "occurs (ascii ''[ERROR]'') (ascii ''[SUCCESS] build [ERROR] link'')
   \<and> occurs (ascii ''[SUCCESS]'') (ascii ''[SUCCESS] build [ERROR] link'')
   \<and> classify (ascii ''[SUCCESS] build [ERROR] link'') = Error
   \<and> occurs_ci (ascii ''failed'') (ascii ''Build FAILED'')
   \<and> classify (ascii ''Build FAILED'') = Error
   \<and> occurs_ci (ascii ''completed'') (ascii ''Task Completed'')
   \<and> classify (ascii ''Task Completed'') = Success
   \<and> classify (ascii ''[STEP 2] compile'') = Plan
   \<and> classify (ascii ''nothing special'') = Info"
proof -
  let ?both = "ascii ''[SUCCESS] build [ERROR] link''"
  have e: "occurs (ascii ''[ERROR]'') ?both"
    unfolding includes_iff [symmetric] by simp
  have s: "occurs (ascii ''[SUCCESS]'') ?both"
    unfolding includes_iff [symmetric] by simp
  have f: "occurs_ci (ascii ''failed'') (ascii ''Build FAILED'')"
    by (rule occurs_ciI [of "ascii ''FAILED''" _ _ "ascii ''Build ''" "[]"])
       (simp_all add: same_letter_def)
  have c: "occurs_ci (ascii ''completed'') (ascii ''Task Completed'')"
    by (rule occurs_ciI [of "ascii ''Completed''" _ _ "ascii ''Task ''" "[]"])
       (simp_all add: same_letter_def)
  have n2: "\<not> occurs (ascii ''[ERROR]'') (ascii ''Task Completed'')"
    "\<not> occurs_ci (ascii ''failed'') (ascii ''Task Completed'')"
    unfolding includes_iff [symmetric] includes_lower_iff [OF failed_small, symmetric]
    by (simp_all add: toLowerCase_def lower_unit_def)
  have p: "classify (ascii ''[STEP 2] compile'') = Plan" "classify (ascii ''nothing special'') = Info"
    by (simp_all add: classify_def toLowerCase_def lower_unit_def)
  from e s classify_first_match [of _ ?both]
  have 1: "classify ?both = Error" by blast
  from f classify_first_match [of _ "ascii ''Build FAILED''"]
  have 2: "classify (ascii ''Build FAILED'') = Error" by simp
  from c n2 classify_first_match [of _ "ascii ''Task Completed''"]
  have 3: "classify (ascii ''Task Completed'') = Success" by simp
  from e s f c p 1 2 3 show ?thesis by blast
qed

subsection \<open>The timestamp pattern\<close>

lemma bracket_not_term: "\<not> line_term (93)"
  by (simp add: line_term_def)

lemma tail_ok_intro:
  assumes "cs = ws @ g2" "\<forall>c\<in>set ws. js_space c" "\<forall>c\<in>set g2. \<not> line_term c"
  shows "tail_ok cs \<and> length (dropWhile js_space cs) \<le> length g2"
proof -
  from assms(1,2) have d: "dropWhile js_space cs = dropWhile js_space g2"
    by (simp add: dropWhile_append)
  have "set (dropWhile js_space g2) \<subseteq> set g2" by (rule set_dropWhileD [THEN subsetI])
  with assms(3) d have "tail_ok cs" by (auto simp: tail_ok_def list_all_iff)
  moreover have "length (dropWhile js_space g2) \<le> length g2" by (rule length_dropWhile_le)
  ultimately show ?thesis using d by simp
qed

lemma tail_ok_split:
  assumes "tail_ok cs"
  shows "(\<forall>c\<in>set (takeWhile js_space cs). js_space c)
         \<and> (\<forall>c\<in>set (dropWhile js_space cs). \<not> line_term c)"
  using assms by (auto simp: tail_ok_def list_all_iff dest: set_takeWhileD)

lemma scan_ts_Some:
  "scan_ts acc cs = Some (r, g2) \<Longrightarrow>
     \<exists>g ws. r = rev acc @ g \<and> cs = g @ [93] @ ws @ g2
       \<and> (\<forall>c\<in>set g. \<not> line_term c) \<and> (\<forall>c\<in>set ws. js_space c) \<and> (\<forall>c\<in>set g2. \<not> line_term c)
       \<and> (\<forall>h ws' h2. cs = h @ [93] @ ws' @ h2 \<and> (\<forall>c\<in>set h. \<not> line_term c)
              \<and> (\<forall>c\<in>set ws'. js_space c) \<and> (\<forall>c\<in>set h2. \<not> line_term c)
            \<longrightarrow> length g < length h \<or> (length g = length h \<and> length g2 \<le> length h2))"
proof (induction cs arbitrary: acc)
  case Nil
  then show ?case by simp
next
  case (Cons c cs)
  show ?case
  proof (cases "c = 93 \<and> tail_ok cs")
    case True
    then have c: "c = 93" and ok: "tail_ok cs" by simp_all
    with Cons.prems have r: "r = rev acc" and g2: "g2 = dropWhile js_space cs" by simp_all
    show ?thesis
    proof (rule exI [of _ "[]"], rule exI [of _ "takeWhile js_space cs"], intro conjI allI impI)
      show "r = rev acc @ []" using r by simp
      show "c # cs = [] @ [93] @ takeWhile js_space cs @ g2" unfolding g2 c by simp
      show "\<forall>c\<in>set []. \<not> line_term c" by simp
      show "\<forall>c\<in>set (takeWhile js_space cs). js_space c" using tail_ok_split [OF ok] by blast
      show "\<forall>c\<in>set g2. \<not> line_term c" unfolding g2 using tail_ok_split [OF ok] by blast
    next
      fix h ws' h2
      assume h: "c # cs = h @ [93] @ ws' @ h2 \<and> (\<forall>c\<in>set h. \<not> line_term c)
              \<and> (\<forall>c\<in>set ws'. js_space c) \<and> (\<forall>c\<in>set h2. \<not> line_term c)"
      show "length [] < length h \<or> (length ([]::jstring) = length h \<and> length g2 \<le> length h2)"
      proof (cases h)
        case Nil
        with h have "cs = ws' @ h2" by simp
        from tail_ok_intro [OF this] h have "length (dropWhile js_space cs) \<le> length h2" by blast
        then show ?thesis unfolding g2 Nil by simp
      next
        case (Cons a list)
        then show ?thesis by simp
      qed
    qed
  next
    case False
    note nb = this
    show ?thesis
    proof (cases "line_term c")
      case True
      with nb Cons.prems show ?thesis by (simp split: if_splits)
    next
      case nt: False
      with nb Cons.prems have "scan_ts (c # acc) cs = Some (r, g2)" by (simp split: if_splits)
      from Cons.IH [OF this] obtain g ws where
        g: "r = rev (c # acc) @ g" "cs = g @ [93] @ ws @ g2"
        "\<forall>c\<in>set g. \<not> line_term c" "\<forall>c\<in>set ws. js_space c" "\<forall>c\<in>set g2. \<not> line_term c"
        and m: "\<forall>h ws' h2. cs = h @ [93] @ ws' @ h2 \<and> (\<forall>c\<in>set h. \<not> line_term c)
              \<and> (\<forall>c\<in>set ws'. js_space c) \<and> (\<forall>c\<in>set h2. \<not> line_term c)
            \<longrightarrow> length g < length h \<or> (length g = length h \<and> length g2 \<le> length h2)"
        by blast
      show ?thesis
      proof (rule exI [of _ "c # g"], rule exI [of _ ws], intro conjI allI impI)
        show "r = rev acc @ c # g" using g(1) by simp
        show "c # cs = (c # g) @ [93] @ ws @ g2" using g(2) by simp
        show "\<forall>x\<in>set (c # g). \<not> line_term x" using g(3) nt by simp
        show "\<forall>c\<in>set ws. js_space c" by (rule g(4))
        show "\<forall>c\<in>set g2. \<not> line_term c" by (rule g(5))
      next
        fix h ws' h2
        assume h: "c # cs = h @ [93] @ ws' @ h2 \<and> (\<forall>c\<in>set h. \<not> line_term c)
              \<and> (\<forall>c\<in>set ws'. js_space c) \<and> (\<forall>c\<in>set h2. \<not> line_term c)"
        show "length (c # g) < length h \<or> (length (c # g) = length h \<and> length g2 \<le> length h2)"
        proof (cases h)
          case Nil
          with h have e: "c = 93" "cs = ws' @ h2" by simp_all
          from tail_ok_intro [OF e(2)] h have "tail_ok cs" by blast
          with e(1) nb show ?thesis by simp
        next
          case (Cons a h')
          with h have "cs = h' @ [93] @ ws' @ h2 \<and> (\<forall>c\<in>set h'. \<not> line_term c)
              \<and> (\<forall>c\<in>set ws'. js_space c) \<and> (\<forall>c\<in>set h2. \<not> line_term c)" by simp
          with m have "length g < length h' \<or> (length g = length h' \<and> length g2 \<le> length h2)"
            by blast
          then show ?thesis unfolding Cons by simp
        qed
      qed
    qed
  qed
qed

lemma scan_ts_None:
  "scan_ts acc cs = None \<Longrightarrow>
     \<not> (\<exists>h ws h2. cs = h @ [93] @ ws @ h2 \<and> (\<forall>c\<in>set h. \<not> line_term c)
              \<and> (\<forall>c\<in>set ws. js_space c) \<and> (\<forall>c\<in>set h2. \<not> line_term c))"
proof (induction cs arbitrary: acc)
  case Nil
  then show ?case by simp
next
  case (Cons c cs)
  show ?case
  proof
    assume "\<exists>h ws h2. c # cs = h @ [93] @ ws @ h2 \<and> (\<forall>c\<in>set h. \<not> line_term c)
              \<and> (\<forall>c\<in>set ws. js_space c) \<and> (\<forall>c\<in>set h2. \<not> line_term c)"
    then obtain h ws h2 where h: "c # cs = h @ [93] @ ws @ h2" "\<forall>c\<in>set h. \<not> line_term c"
      "\<forall>c\<in>set ws. js_space c" "\<forall>c\<in>set h2. \<not> line_term c" by blast
    show False
    proof (cases h)
      case Nil
      with h(1) have c: "c = 93" "cs = ws @ h2" by simp_all
      from tail_ok_intro [OF c(2) h(3) h(4)] have "tail_ok cs" by simp
      with c(1) Cons.prems show False by simp
    next
      case (Cons a h')
      with h(1,2) have c: "\<not> line_term c" "cs = h' @ [93] @ ws @ h2"
        "\<forall>c\<in>set h'. \<not> line_term c" by simp_all
      with Cons.prems have "scan_ts (c # acc) cs = None" by (simp split: if_splits)
      from Cons.IH [OF this] c(2,3) h(3,4) show False by blast
    qed
  qed
qed

lemma ts_match_Some: "ts_match line = Some (g1, g2) \<Longrightarrow> regex_ts_match line g1 g2"
proof -
  assume a: "ts_match line = Some (g1, g2)"
  then obtain cs where l: "line = 91 # cs" and s: "scan_ts [] cs = Some (g1, g2)"
    by (auto simp: ts_match_def split: list.splits if_splits)
  from scan_ts_Some [OF s] show ?thesis
    unfolding regex_ts_match_def ts_candidate_def l by simp blast
qed

lemma ts_match_None: "ts_match line = None \<Longrightarrow> \<not> ts_candidate line g1 g2"
proof
  assume a: "ts_match line = None" and c: "ts_candidate line g1 g2"
  from c obtain ws where w: "line = 91 # (g1 @ [93] @ ws @ g2)"
    "\<forall>c\<in>set g1. \<not> line_term c" "\<forall>c\<in>set ws. js_space c" "\<forall>c\<in>set g2. \<not> line_term c"
    by (auto simp: ts_candidate_def)
  with a have "scan_ts [] (g1 @ [93] @ ws @ g2) = None" by (simp add: ts_match_def)
  from scan_ts_None [OF this] w(2,3,4) show False by blast
qed

lemma regex_ts_match_unique:
  assumes "regex_ts_match line g1 g2" "regex_ts_match line h1 h2"
  shows "g1 = h1 \<and> g2 = h2"
proof -
  from assms have cg: "ts_candidate line g1 g2" and ch: "ts_candidate line h1 h2"
    by (simp_all add: regex_ts_match_def)
  from assms(1) ch have "length g1 < length h1 \<or> (length g1 = length h1 \<and> length g2 \<le> length h2)"
    unfolding regex_ts_match_def by blast
  moreover
  from assms(2) cg have "length h1 < length g1 \<or> (length h1 = length g1 \<and> length h2 \<le> length g2)"
    unfolding regex_ts_match_def by blast
  ultimately have len: "length g1 = length h1" "length g2 = length h2" by arith+
  from cg obtain ws where g: "line = [91] @ g1 @ [93] @ ws @ g2"
    unfolding ts_candidate_def by blast
  from ch obtain ws' where h: "line = [91] @ h1 @ [93] @ ws' @ h2"
    unfolding ts_candidate_def by blast
  from g h have e: "g1 @ ([93] @ ws @ g2) = h1 @ ([93] @ ws' @ h2)" by simp
  with len(1) have 1: "g1 = h1" and "[93] @ ws @ g2 = [93] @ ws' @ h2" by simp_all
  then have "ws @ g2 = ws' @ h2" by simp
  with len(2) have "g2 = h2" by (simp add: append_eq_append_conv)
  with 1 show ?thesis by simp
qed

lemma regex_ts_match_iff: "regex_ts_match line g1 g2 \<longleftrightarrow> ts_match line = Some (g1, g2)"
proof
  assume r: "regex_ts_match line g1 g2"
  then have "ts_candidate line g1 g2" by (simp add: regex_ts_match_def)
  with ts_match_None have "ts_match line \<noteq> None" by blast
  then obtain h1 h2 where h: "ts_match line = Some (h1, h2)" by auto
  from regex_ts_match_unique [OF r ts_match_Some [OF h]] h
  show "ts_match line = Some (g1, g2)" by simp
qed (rule ts_match_Some)


lemma split_on_not_Nil: "split_on sep s \<noteq> []"
  by (induction s) auto

lemma hd_split_on: "hd (split_on sep s) = takeWhile (\<lambda>c. c \<noteq> sep) s"
  by (induction s) auto

lemma tl_split_on:
  "sep \<in> set s \<Longrightarrow> tl (split_on sep s) = split_on sep (tl (dropWhile (\<lambda>c. c \<noteq> sep) s))"
  by (induction s) auto

lemma split_on_second:
  assumes "sep \<in> set s"
  shows "split_on sep s ! 1 = takeWhile (\<lambda>c. c \<noteq> sep) (tl (dropWhile (\<lambda>c. c \<noteq> sep) s))"
proof -
  let ?rest = "tl (dropWhile (\<lambda>c. c \<noteq> sep) s)"
  obtain x xs where x: "split_on sep s = x # xs"
    using split_on_not_Nil [of sep s] by (cases "split_on sep s") auto
  with tl_split_on [OF assms] have xs: "xs = split_on sep ?rest" by simp
  with split_on_not_Nil [of sep ?rest] have "xs ! 0 = hd xs" by (simp add: hd_conv_nth)
  with x xs show ?thesis by (simp add: hd_split_on)
qed

lemma includes_char: "js_includes s [c] \<longleftrightarrow> c \<in> set s"
  by (induction s) auto

lemma short_ts_eq:
  "short_ts g =
     (if 84 \<in> set g
      then takeWhile (\<lambda>c. c \<noteq> 46)
             (takeWhile (\<lambda>c. c \<noteq> 84) (tl (dropWhile (\<lambda>c. c \<noteq> 84) g)))
      else g)"
  by (simp add: short_ts_def includes_char hd_split_on split_on_second [unfolded One_nat_def])

lemma split_on_single: "sep \<notin> set l \<Longrightarrow> split_on sep l = [l]"
  by (induction l) auto

lemma split_on_append: "sep \<notin> set l \<Longrightarrow> split_on sep (l @ sep # rest) = l # split_on sep rest"
  by (induction l) auto

lemma split_on_join_lines:
  "ls \<noteq> [] \<Longrightarrow> \<forall>l\<in>set ls. 10 \<notin> set l \<Longrightarrow> split_on (10) (join_lines ls) = ls"
  by (induction ls rule: join_lines.induct) (simp_all add: split_on_single split_on_append)

lemma dropWhile_all_Nil: "(\<forall>c\<in>set (dropWhile P l). P c) \<longleftrightarrow> dropWhile P l = []"
proof
  assume a: "\<forall>c\<in>set (dropWhile P l). P c"
  show "dropWhile P l = []"
  proof (rule ccontr)
    assume n: "dropWhile P l \<noteq> []"
    then have "\<not> P (hd (dropWhile P l))" by (rule hd_dropWhile)
    moreover from n have "hd (dropWhile P l) \<in> set (dropWhile P l)" by simp
    ultimately show False using a by blast
  qed
qed (auto dest: set_dropWhileD)

lemma trim_nonempty_iff: "trim l \<noteq> [] \<longleftrightarrow> (\<exists>c\<in>set l. \<not> js_space c)"
proof -
  have "trim l = [] \<longleftrightarrow> dropWhile js_space l = []"
    unfolding trim_def rev_is_Nil_conv dropWhile_eq_Nil_conv [of js_space "rev _"] set_rev
    by (rule dropWhile_all_Nil)
  then show ?thesis by (simp add: dropWhile_eq_Nil_conv)
qed

lemma formattedLogs_join:
  assumes "\<forall>l\<in>set ls. 10 \<notin> set l"
  shows "formattedLogs (join_lines ls) = map format_line (filter (\<lambda>l. \<exists>c\<in>set l. \<not> js_space c) ls)"
proof (cases "ls = []")
  case True
  then show ?thesis by (simp add: formattedLogs_def trim_def)
next
  case False
  from split_on_join_lines [OF this assms] show ?thesis
    by (simp add: formattedLogs_def trim_nonempty_iff)
qed

lemma format_line_match:
  "ts_match l = Some (g1, g2) \<Longrightarrow> timestamp (format_line l) = short_ts g1 \<and> message (format_line l) = g2"
  by (simp add: format_line_def)

lemma format_line_no_match:
  "ts_match l = None \<Longrightarrow> timestamp (format_line l) = [] \<and> message (format_line l) = l"
  by (simp add: format_line_def)

lemma short_ts_verbatim: "84 \<notin> set g \<Longrightarrow> short_ts g = g"
  by (simp add: short_ts_eq)

lemma short_ts_date_time:
  assumes "date_time g day tod"
  shows "short_ts g = takeWhile (\<lambda>c. c \<noteq> 46) tod"
proof -
  from assms have g: "g = day @ 84 # tod" and day: "\<forall>c\<in>set day. c \<noteq> 84" and tod: "\<forall>c\<in>set tod. c \<noteq> 84"
    by (auto simp: date_time_def date_unit_def list_all_iff)
  from day have dw: "dropWhile (\<lambda>c. c \<noteq> 84) (day @ 84 # tod) = 84 # tod"
    by (simp add: dropWhile_append3)
  from tod have tw: "takeWhile (\<lambda>c. c \<noteq> 84) tod = tod"
    by (simp add: takeWhile_eq_all_conv)
  have "short_ts g = takeWhile (\<lambda>c. c \<noteq> 46)
          (takeWhile (\<lambda>c. c \<noteq> 84) (tl (dropWhile (\<lambda>c. c \<noteq> 84) (day @ 84 # tod))))"
    unfolding g by (simp add: short_ts_eq)
  also have "\<dots> = takeWhile (\<lambda>c. c \<noteq> 46) (takeWhile (\<lambda>c. c \<noteq> 84) tod)"
    by (simp only: dw list.sel)
  also have "\<dots> = takeWhile (\<lambda>c. c \<noteq> 46) tod"
    by (simp only: tw)
  finally show ?thesis .
qed

text \<open>
  C5, as the code has it. Blank lines are dropped and the entries follow the lines in
  order. On a line that matches \<^verbatim>\<open>^\[(.*?)\]\s*(.*)$\<close>, where group 1 may be empty, the
  message is group 2 and the timestamp comes from group 1: group 1 itself when it holds no
  T, and, when it is a date and a time of day joined by the separator T, the time of day
  cut at its first full stop. On every other line the timestamp is empty and the message
  is the whole line.
\<close>

theorem formattedLogs_parse:
  "((\<forall>l\<in>set ls. 10 \<notin> set l) \<longrightarrow>
      formattedLogs (join_lines ls) = map format_line (filter (\<lambda>l. \<exists>c\<in>set l. \<not> js_space c) ls))
   \<and> (regex_ts_match l g1 g2 \<longrightarrow>
        message (format_line l) = g2
        \<and> (84 \<notin> set g1 \<longrightarrow> timestamp (format_line l) = g1)
        \<and> (date_time g1 day tod \<longrightarrow> timestamp (format_line l) = takeWhile (\<lambda>c. c \<noteq> 46) tod))
   \<and> ((\<forall>h1 h2. \<not> regex_ts_match l h1 h2) \<longrightarrow>
        timestamp (format_line l) = [] \<and> message (format_line l) = l)"
proof (intro conjI impI)
  assume "\<forall>l\<in>set ls. 10 \<notin> set l"
  then show "formattedLogs (join_lines ls) = map format_line (filter (\<lambda>l. \<exists>c\<in>set l. \<not> js_space c) ls)"
    by (rule formattedLogs_join)
next
  assume "regex_ts_match l g1 g2"
  then have "ts_match l = Some (g1, g2)" by (simp add: regex_ts_match_iff)
  from format_line_match [OF this] show "message (format_line l) = g2" by simp
next
  assume "regex_ts_match l g1 g2" and "84 \<notin> set g1"
  then have "ts_match l = Some (g1, g2)" "short_ts g1 = g1"
    by (simp_all add: regex_ts_match_iff short_ts_verbatim)
  with format_line_match [of l g1 g2] show "timestamp (format_line l) = g1" by simp
next
  assume "regex_ts_match l g1 g2" and "date_time g1 day tod"
  then have "ts_match l = Some (g1, g2)" "short_ts g1 = takeWhile (\<lambda>c. c \<noteq> 46) tod"
    by (simp_all add: regex_ts_match_iff short_ts_date_time)
  with format_line_match [of l g1 g2]
  show "timestamp (format_line l) = takeWhile (\<lambda>c. c \<noteq> 46) tod" by simp
next
  assume n: "\<forall>h1 h2. \<not> regex_ts_match l h1 h2"
  have m: "ts_match l = None"
  proof (cases "ts_match l")
    case (Some p)
    then have "regex_ts_match l (fst p) (snd p)" by (simp add: regex_ts_match_iff)
    with n show ?thesis by blast
  qed simp
  from format_line_no_match [OF m] show "timestamp (format_line l) = []" by simp
  from format_line_no_match [OF m] show "message (format_line l) = l" by simp
qed

lemmas fmt_eval = formattedLogs_def format_line_def ts_match_def trim_def js_space_def tail_ok_def
  line_term_def short_ts_def classify_def toLowerCase_def lower_unit_def spec_ts_match_def

text \<open>
  The line \<^verbatim>\<open>[] hello\<close> is not blank and does not match the pattern with \<^verbatim>\<open>(.+?)\<close>,
  yet its message is not the whole line: the code's pattern lets group 1 be empty.
\<close>

theorem formattedLogs_spec_pattern_counterexample:
  "trim (ascii ''[] hello'') \<noteq> [] \<and> spec_ts_match (ascii ''[] hello'') = None
   \<and> message (format_line (ascii ''[] hello'')) = (ascii ''hello'')
   \<and> message (format_line (ascii ''[] hello'')) \<noteq> (ascii ''[] hello'')"
  by (simp add: fmt_eval)


text \<open>
  Three lines in one text: a line stamped with a date and time, a blank line, and a line
  with no bracket; and the line the program itself writes when it falls back, stamped in
  Arabic-Indic digits.
\<close>

theorem formattedLogs_parse_witness:
  "regex_ts_match (ascii ''[2024-01-02T10:11:12.345Z] [ERROR] boom'')
     (ascii ''2024-01-02T10:11:12.345Z'') (ascii ''[ERROR] boom'')
   \<and> date_time (ascii ''2024-01-02T10:11:12.345Z'') (ascii ''2024-01-02'') (ascii ''10:11:12.345Z'')
   \<and> (\<forall>h1 h2. \<not> regex_ts_match (ascii ''plain line'') h1 h2)
   \<and> formattedLogs (join_lines [ascii ''[2024-01-02T10:11:12.345Z] [ERROR] boom'', ascii ''  '',
                                 ascii ''plain line''])
       = [format_line (ascii ''[2024-01-02T10:11:12.345Z] [ERROR] boom''),
          format_line (ascii ''plain line'')]
   \<and> timestamp (format_line (ascii ''[2024-01-02T10:11:12.345Z] [ERROR] boom'')) = ascii ''10:11:12''
   \<and> message (format_line (ascii ''[2024-01-02T10:11:12.345Z] [ERROR] boom'')) = ascii ''[ERROR] boom''
   \<and> timestamp (format_line (ascii ''plain line'')) = []
   \<and> message (format_line (ascii ''plain line'')) = ascii ''plain line''
   \<and> regex_ts_match (ascii ''['' @ [0x0661, 0x0660, 0x003A, 0x0660, 0x0665] @ ascii ''] '' @ offline_notice)
        [0x0661, 0x0660, 0x003A, 0x0660, 0x0665] offline_notice
   \<and> timestamp (format_line (ascii ''['' @ [0x0661, 0x0660, 0x003A, 0x0660, 0x0665] @ ascii ''] ''
                               @ offline_notice))
       = [0x0661, 0x0660, 0x003A, 0x0660, 0x0665]
   \<and> message (format_line (ascii ''['' @ [0x0661, 0x0660, 0x003A, 0x0660, 0x0665] @ ascii ''] ''
                             @ offline_notice))
       = offline_notice"
proof -
  let ?a = "ascii ''[2024-01-02T10:11:12.345Z] [ERROR] boom''"
  let ?p = "ascii ''plain line''"
  let ?t = "[0x0661, 0x0660, 0x003A, 0x0660, 0x0665] :: jstring"
  let ?f = "ascii ''['' @ ?t @ ascii ''] '' @ offline_notice"
  have h1: "\<forall>l\<in>set [?a, ascii ''  '', ?p]. 10 \<notin> set l" by simp
  have h2: "regex_ts_match ?a (ascii ''2024-01-02T10:11:12.345Z'') (ascii ''[ERROR] boom'')"
    unfolding regex_ts_match_iff by (simp add: ts_match_def tail_ok_def js_space_def line_term_def)
  have d: "date_time (ascii ''2024-01-02T10:11:12.345Z'') (ascii ''2024-01-02'') (ascii ''10:11:12.345Z'')"
    by (simp add: date_time_def date_unit_def)
  have h3: "\<forall>h1 h2. \<not> regex_ts_match ?p h1 h2"
    unfolding regex_ts_match_iff by (simp add: ts_match_def)
  have h4: "regex_ts_match ?f ?t offline_notice"
    unfolding regex_ts_match_iff
    by (simp add: ts_match_def tail_ok_def js_space_def line_term_def offline_notice_def)
  have n: "84 \<notin> set ?t" by simp
  have f: "filter (\<lambda>l. \<exists>c\<in>set l. \<not> js_space c) [?a, ascii ''  '', ?p] = [?a, ?p]"
    by (simp add: js_space_def)
  from formattedLogs_parse [of "[?a, ascii ''  '', ?p]" ?a "ascii ''2024-01-02T10:11:12.345Z''"
      "ascii ''[ERROR] boom''" "ascii ''2024-01-02''" "ascii ''10:11:12.345Z''"] h1 h2 d
  have A: "formattedLogs (join_lines [?a, ascii ''  '', ?p]) = [format_line ?a, format_line ?p]"
    and B: "timestamp (format_line ?a) = ascii ''10:11:12''" "message (format_line ?a) = ascii ''[ERROR] boom''"
    unfolding f by simp_all
  from formattedLogs_parse [of "[]" ?p "[]" "[]"] h3
  have C: "timestamp (format_line ?p) = []" "message (format_line ?p) = ?p" by blast+
  from formattedLogs_parse [of "[]" ?f ?t offline_notice] h4 n
  have D: "timestamp (format_line ?f) = ?t" "message (format_line ?f) = offline_notice" by blast+
  from h2 d h3 h4 A B C D show ?thesis by blast
qed

section \<open>The simulation engine\<close>

lemma get_prop_field: "st \<noteq> JNull \<Longrightarrow> get_prop (Some st) k = Inr (field_of st k)"
  by (cases st) (simp_all add: field_of_def)

lemma js_to_string_ok: "\<not> unconvertible v \<Longrightarrow> js_to_string v = Inr (value_text v)"
  by (cases v) (simp_all add: js_to_string_def unconvertible_def value_text_def)

lemma js_to_string_fail:
  "unconvertible v \<Longrightarrow>
     js_to_string v = Inl (JsError (ascii ''Cannot convert object to primitive value''))"
  by (cases v) (simp_all add: js_to_string_def unconvertible_def)

lemma step_log_ok: "\<not> step_fails st \<Longrightarrow> step_log t st = Inr (step_entry t st)"
proof -
  assume a: "\<not> step_fails st"
  then have n: "st \<noteq> JNull"
    and th: "\<not> unconvertible (field_of st (ascii ''thought''))"
    and ac: "\<not> unconvertible (field_of st (ascii ''action''))"
    unfolding step_fails_def by blast+
  show ?thesis
    unfolding step_log_def step_entry_def
    by (simp only: get_prop_field [OF n] js_to_string_ok [OF th] js_to_string_ok [OF ac]
          sum.case)
qed

lemma step_log_fail: "step_fails st \<Longrightarrow> step_log t st = Inl (step_error st)"
proof (cases "st = JNull")
  case True
  then show ?thesis by (simp add: step_log_def step_error_def)
next
  case False
  assume "step_fails st"
  with False have u: "unconvertible (field_of st (ascii ''thought''))
      \<or> unconvertible (field_of st (ascii ''action''))"
    by (simp add: step_fails_def)
  show ?thesis
  proof (cases "unconvertible (field_of st (ascii ''thought''))")
    case True
    from False show ?thesis
      unfolding step_log_def step_error_def
      by (simp only: get_prop_field [OF False] js_to_string_fail [OF True] sum.case if_False)
  next
    case nt: False
    with u have ac: "unconvertible (field_of st (ascii ''action''))" by blast
    from False show ?thesis
      unfolding step_log_def step_error_def
      by (simp only: get_prop_field [OF False] js_to_string_ok [OF nt] js_to_string_fail [OF ac]
            sum.case if_False)
  qed
qed

lemma run_steps_ok:
  "\<forall>st\<in>set items. \<not> step_fails st \<Longrightarrow>
     run_steps clock k items =
       (map (\<lambda>(i, st). OnLogUpdate (step_entry (clock i) st)) (enumerate k items), None)"
proof (induction items arbitrary: k)
  case Nil
  then show ?case by simp
next
  case (Cons st items)
  then have ok: "\<not> step_fails st" and rest: "\<forall>st\<in>set items. \<not> step_fails st" by simp_all
  from Cons.IH [OF rest, of "Suc k"] step_log_ok [OF ok, of "clock k"]
  show ?case by simp
qed

lemma run_steps_fail:
  "\<forall>st\<in>set pre. \<not> step_fails st \<Longrightarrow> step_fails bad \<Longrightarrow>
     run_steps clock k (pre @ bad # rest) =
       (map (\<lambda>(i, st). OnLogUpdate (step_entry (clock i) st)) (enumerate k pre),
        Some (step_error bad))"
proof (induction pre arbitrary: k)
  case Nil
  from step_log_fail [OF Nil(2), of "clock k"] show ?case by simp
next
  case (Cons st pre)
  then have ok: "\<not> step_fails st" and rest: "\<forall>st\<in>set pre. \<not> step_fails st" by simp_all
  from Cons.IH [OF rest Cons.prems(2), of "Suc k"] step_log_ok [OF ok, of "clock k"]
  show ?case by simp
qed

lemma run_steps_no_completion:
  "run_steps clock k items = (evs, r) \<Longrightarrow> ev \<in> set evs \<Longrightarrow> \<not> is_completion ev"
proof (induction items arbitrary: k evs r)
  case Nil
  then show ?case by simp
next
  case (Cons st items)
  show ?case
  proof (cases "run_steps clock (Suc k) items")
    case (Pair evs' r')
    with Cons.prems have "evs = [] \<or> (\<exists>entry. evs = OnLogUpdate entry # evs')"
      by (auto split: sum.splits)
    with Cons.prems(2) Cons.IH [OF Pair] show ?thesis by auto
  qed
qed

lemma try_body_failure_no_completion:
  assumes "try_body parse clock reply = (evs, Some e)" "ev \<in> set evs"
  shows "\<not> is_completion ev"
  using assms
  by (auto simp: try_body_def Let_def split: sum.splits prod.splits option.splits
        dest: run_steps_no_completion)

lemma sim_of_failure:
  "try_body parse clock reply = (evs, Some e) \<Longrightarrow>
     simulateAgentExecution parse clock reply =
       OnLogUpdate (system_entry (clock 0)) # evs @ [OnLogUpdate (error_entry (clock (Suc (length evs))) e)]"
  by (simp add: simulateAgentExecution_def)

lemma sim_of_success:
  "try_body parse clock reply = (evs, None) \<Longrightarrow>
     simulateAgentExecution parse clock reply = OnLogUpdate (system_entry (clock 0)) # evs"
  by (simp add: simulateAgentExecution_def)

lemma sim_first_call:
  "hd (simulateAgentExecution parse clock reply) = OnLogUpdate (system_entry (clock 0))"
  by (cases "try_body parse clock reply")
    (auto simp: simulateAgentExecution_def Let_def split: option.splits)

lemma steps_of_object:
  "field_of result (ascii ''steps'') = Some v \<Longrightarrow>
     get_prop (Some result) (ascii ''steps'') = Inr (Some v)
     \<and> get_prop (Some result) (ascii ''files'') = Inr (field_of result (ascii ''files''))"
  by (cases result) (simp_all add: field_of_def)

lemma step_entries_no_completion:
  "filter is_completion (map (\<lambda>(k, st). OnLogUpdate (step_entry (clock k) st)) xs) = []"
  by (auto simp: filter_empty_conv)

text \<open>
  C2. When no exception is raised (the response parses to an object whose \<^verbatim>\<open>steps\<close> is
  an array, no step is \<^verbatim>\<open>null\<close>, and every thought and action converts to a string), the
  run makes these calls and no others, in this order: the two announcements, one
  \<^verbatim>\<open>onLogUpdate\<close> for each step in the order of the array, and then \<^verbatim>\<open>onCompletion\<close>,
  once, with the \<^verbatim>\<open>files\<close> of the response.
\<close>

theorem simulation_success_trace:
  assumes "reply = Inr body_text"
    and "response_json parse body_text = Inr result"
    and "field_of result (ascii ''steps'') = Some (JArr items)"
    and "\<forall>st\<in>set items. \<not> step_fails st"
  shows "simulateAgentExecution parse clock reply =
           [OnLogUpdate (system_entry (clock 0)), OnLogUpdate (brain_entry (clock 1))]
           @ map (\<lambda>(k, st). OnLogUpdate (step_entry (clock k) st)) (enumerate 2 items)
           @ [OnCompletion (field_of result (ascii ''files''))]
         \<and> length (simulateAgentExecution parse clock reply) = length items + 3
         \<and> filter is_completion (simulateAgentExecution parse clock reply)
             = [OnCompletion (field_of result (ascii ''files''))]
         \<and> last (simulateAgentExecution parse clock reply)
             = OnCompletion (field_of result (ascii ''files''))"
proof -
  let ?steps = "map (\<lambda>(k, st). OnLogUpdate (step_entry (clock k) st)) (enumerate 2 items)"
  let ?fs = "field_of result (ascii ''files'')"
  note g = steps_of_object [OF assms(3)]
  from assms(1,2) g run_steps_ok [OF assms(4), of clock 2]
  have "try_body parse clock reply =
      (OnLogUpdate (brain_entry (clock 1)) # ?steps @ [OnCompletion ?fs], None)"
    by (simp add: try_body_def)
  from sim_of_success [OF this] have t: "simulateAgentExecution parse clock reply =
      [OnLogUpdate (system_entry (clock 0)), OnLogUpdate (brain_entry (clock 1))] @ ?steps @ [OnCompletion ?fs]"
    by simp
  with step_entries_no_completion [of clock "enumerate 2 items"] show ?thesis by simp
qed

lemmas step_eval = step_entry_def step_fails_def step_error_def field_of_def value_text_def
  unconvertible_def step_type_def

theorem simulation_success_trace_witness:
  "simulateAgentExecution
     (\<lambda>t. Inr (JObj [(ascii ''steps'',
                       JArr [JObj [(ascii ''thought'', JStr (ascii ''read'')),
                                   (ascii ''action'', JStr (ascii ''open file'')),
                                   (ascii ''type'', JStr (ascii ''info''))],
                             JObj [(ascii ''thought'', JNum (ascii ''42'')),
                                   (ascii ''action'', JObj [(ascii ''q'', JNull)]),
                                   (ascii ''type'', JStr (ascii ''search''))],
                             JObj [(ascii ''thought'', JStr (ascii ''write'')),
                                   (ascii ''action'', JArr [JStr (ascii ''a''), JNull, JStr (ascii ''b'')]),
                                   (ascii ''type'', JStr (ascii ''success''))]]),
                     (ascii ''files'',
                       JArr [JObj [(ascii ''name'', JStr (ascii ''a.md'')), (ascii ''path'', JStr (ascii ''output/a.md''))],
                             JObj [(ascii ''name'', JStr (ascii ''b.md'')), (ascii ''path'', JStr (ascii ''output/b.md''))]])]))
     (\<lambda>k. ascii ''10:00:0'' @ [48 + k])
     (Inr (Some (ascii ''reply'')))
   = [OnLogUpdate \<lparr>timestamp = ascii ''10:00:00'', message = system_notice, type = Process\<rparr>,
      OnLogUpdate \<lparr>timestamp = ascii ''10:00:01'', message = brain_notice, type = Brain\<rparr>,
      OnLogUpdate \<lparr>timestamp = ascii ''10:00:02'', message = ascii ''read -> open file'', type = Info\<rparr>,
      OnLogUpdate \<lparr>timestamp = ascii ''10:00:03'', message = ascii ''42 -> [object Object]'', type = Search\<rparr>,
      OnLogUpdate \<lparr>timestamp = ascii ''10:00:04'', message = ascii ''write -> a,,b'', type = Success\<rparr>,
      OnCompletion (Some (JArr [JObj [(ascii ''name'', JStr (ascii ''a.md'')), (ascii ''path'', JStr (ascii ''output/a.md''))],
                                JObj [(ascii ''name'', JStr (ascii ''b.md'')), (ascii ''path'', JStr (ascii ''output/b.md''))]]))]"
proof -
  let ?s1 = "JObj [(ascii ''thought'', JStr (ascii ''read'')),
                   (ascii ''action'', JStr (ascii ''open file'')),
                   (ascii ''type'', JStr (ascii ''info''))]"
  let ?s2 = "JObj [(ascii ''thought'', JNum (ascii ''42'')),
                   (ascii ''action'', JObj [(ascii ''q'', JNull)]),
                   (ascii ''type'', JStr (ascii ''search''))]"
  let ?s3 = "JObj [(ascii ''thought'', JStr (ascii ''write'')),
                   (ascii ''action'', JArr [JStr (ascii ''a''), JNull, JStr (ascii ''b'')]),
                   (ascii ''type'', JStr (ascii ''success''))]"
  let ?fs = "JArr [JObj [(ascii ''name'', JStr (ascii ''a.md'')), (ascii ''path'', JStr (ascii ''output/a.md''))],
                   JObj [(ascii ''name'', JStr (ascii ''b.md'')), (ascii ''path'', JStr (ascii ''output/b.md''))]]"
  let ?result = "JObj [(ascii ''steps'', JArr [?s1, ?s2, ?s3]), (ascii ''files'', ?fs)]"
  let ?parse = "\<lambda>t::jstring. (Inr ?result :: js_error + json)"
  let ?clock = "\<lambda>k::nat. ascii ''10:00:0'' @ [48 + k]"
  have 1: "(Inr (Some (ascii ''reply'')) :: js_error + jstring option) = Inr (Some (ascii ''reply''))"
    by simp
  have 2: "response_json ?parse (Some (ascii ''reply'')) = Inr ?result" by (simp add: response_json_def)
  have 3: "field_of ?result (ascii ''steps'') = Some (JArr [?s1, ?s2, ?s3])" by (simp add: field_of_def)
  have 4: "\<forall>st\<in>set [?s1, ?s2, ?s3]. \<not> step_fails st" by (simp add: step_eval)
  have 5: "field_of ?result (ascii ''files'') = Some ?fs" by (simp add: field_of_def)
  have e: "enumerate 2 [?s1, ?s2, ?s3] = [(2, ?s1), (3, ?s2), (4, ?s3)]" by simp
  from simulation_success_trace [OF 1 2 3 4, of ?clock]
  have "simulateAgentExecution ?parse ?clock (Inr (Some (ascii ''reply''))) =
           [OnLogUpdate (system_entry (?clock 0)), OnLogUpdate (brain_entry (?clock 1))]
           @ map (\<lambda>(k, st). OnLogUpdate (step_entry (?clock k) st)) (enumerate 2 [?s1, ?s2, ?s3])
           @ [OnCompletion (field_of ?result (ascii ''files''))]"
    by (rule conjunct1)
  then show ?thesis
    unfolding e 5 by (simp add: step_eval system_entry_def brain_entry_def)
qed

text \<open>
  C3, as the code has it. A rejected model call, a response text that \<^verbatim>\<open>JSON.parse\<close>
  refuses, and a parsed value whose \<^verbatim>\<open>steps\<close> cannot be read or iterated each end the
  run with exactly one entry of type error, the last call, whose message carries the
  reason. When a step fails inside the loop (it is \<^verbatim>\<open>null\<close>, or its thought or action
  cannot be converted), the steps before it have been logged, with their own types, and the
  entry of the \<^verbatim>\<open>catch\<close> block follows as the last call. Whenever an exception leaves the
  \<^verbatim>\<open>try\<close> block, that entry is the last call and \<^verbatim>\<open>onCompletion\<close> is never called. The
  result is always a list of calls: nothing is thrown to the caller.
\<close>

theorem simulation_failure_trace:
  "(reply = Inl e \<longrightarrow>
      simulateAgentExecution parse clock reply =
        [OnLogUpdate (system_entry (clock 0)), OnLogUpdate (error_entry (clock 1) e)])
   \<and> (reply = Inr body_text \<and> response_json parse body_text = Inl e \<longrightarrow>
      simulateAgentExecution parse clock reply =
        [OnLogUpdate (system_entry (clock 0)), OnLogUpdate (error_entry (clock 1) e)])
   \<and> (reply = Inr body_text \<and> response_json parse body_text = Inr result
        \<and> (get_prop (Some result) (ascii ''steps'') = Inl e
            \<or> (\<exists>v. get_prop (Some result) (ascii ''steps'') = Inr v \<and> js_iterate v = Inl e)) \<longrightarrow>
      simulateAgentExecution parse clock reply =
        [OnLogUpdate (system_entry (clock 0)), OnLogUpdate (brain_entry (clock 1)),
         OnLogUpdate (error_entry (clock 2) e)])
   \<and> filter is_error_log
        [OnLogUpdate (system_entry t0), OnLogUpdate (brain_entry t1), OnLogUpdate (error_entry t2 e)]
       = [OnLogUpdate (error_entry t2 e)]
   \<and> filter is_error_log [OnLogUpdate (system_entry t0), OnLogUpdate (error_entry t2 e)]
       = [OnLogUpdate (error_entry t2 e)]
   \<and> (reply = Inr body_text \<and> response_json parse body_text = Inr result
        \<and> field_of result (ascii ''steps'') = Some (JArr (pre @ bad # rest))
        \<and> (\<forall>st\<in>set pre. \<not> step_fails st) \<and> step_fails bad \<longrightarrow>
      simulateAgentExecution parse clock reply =
        [OnLogUpdate (system_entry (clock 0)), OnLogUpdate (brain_entry (clock 1))]
        @ map (\<lambda>(k, st). OnLogUpdate (step_entry (clock k) st)) (enumerate 2 pre)
        @ [OnLogUpdate (error_entry (clock (length pre + 2)) (step_error bad))])
   \<and> (snd (try_body parse clock reply) = Some e \<longrightarrow>
        last (simulateAgentExecution parse clock reply)
          = OnLogUpdate \<lparr>timestamp = clock (length (simulateAgentExecution parse clock reply) - 1),
                         message = failure_prefix @ error_message e, type = Error\<rparr>
        \<and> (\<forall>ev\<in>set (simulateAgentExecution parse clock reply). \<not> is_completion ev))"
proof (intro conjI impI)
  assume "reply = Inl e"
  then have "try_body parse clock reply = ([], Some e)" by (simp add: try_body_def)
  from sim_of_failure [OF this]
  show "simulateAgentExecution parse clock reply =
        [OnLogUpdate (system_entry (clock 0)), OnLogUpdate (error_entry (clock 1) e)]" by simp
next
  assume "reply = Inr body_text \<and> response_json parse body_text = Inl e"
  then have "try_body parse clock reply = ([], Some e)" by (simp add: try_body_def)
  from sim_of_failure [OF this]
  show "simulateAgentExecution parse clock reply =
        [OnLogUpdate (system_entry (clock 0)), OnLogUpdate (error_entry (clock 1) e)]" by simp
next
  assume "reply = Inr body_text \<and> response_json parse body_text = Inr result
        \<and> (get_prop (Some result) (ascii ''steps'') = Inl e
            \<or> (\<exists>v. get_prop (Some result) (ascii ''steps'') = Inr v \<and> js_iterate v = Inl e))"
  then have "try_body parse clock reply = ([OnLogUpdate (brain_entry (clock 1))], Some e)"
    by (auto simp: try_body_def)
  from sim_of_failure [OF this]
  show "simulateAgentExecution parse clock reply =
        [OnLogUpdate (system_entry (clock 0)), OnLogUpdate (brain_entry (clock 1)),
         OnLogUpdate (error_entry (clock 2) e)]" by (simp add: numeral_2_eq_2)
next
  show "filter is_error_log
        [OnLogUpdate (system_entry t0), OnLogUpdate (brain_entry t1), OnLogUpdate (error_entry t2 e)]
       = [OnLogUpdate (error_entry t2 e)]"
    by (simp add: system_entry_def brain_entry_def error_entry_def)
next
  show "filter is_error_log [OnLogUpdate (system_entry t0), OnLogUpdate (error_entry t2 e)]
       = [OnLogUpdate (error_entry t2 e)]"
    by (simp add: system_entry_def error_entry_def)
next
  let ?pre = "map (\<lambda>(k, st). OnLogUpdate (step_entry (clock k) st)) (enumerate 2 pre)"
  assume a: "reply = Inr body_text \<and> response_json parse body_text = Inr result
        \<and> field_of result (ascii ''steps'') = Some (JArr (pre @ bad # rest))
        \<and> (\<forall>st\<in>set pre. \<not> step_fails st) \<and> step_fails bad"
  then have r: "run_steps clock 2 (pre @ bad # rest) = (?pre, Some (step_error bad))"
    using run_steps_fail by blast
  from a have g: "get_prop (Some result) (ascii ''steps'') = Inr (Some (JArr (pre @ bad # rest)))"
    using steps_of_object by blast
  from a g r have "try_body parse clock reply
      = (OnLogUpdate (brain_entry (clock 1)) # ?pre, Some (step_error bad))"
    by (simp add: try_body_def)
  from sim_of_failure [OF this]
  show "simulateAgentExecution parse clock reply =
        [OnLogUpdate (system_entry (clock 0)), OnLogUpdate (brain_entry (clock 1))]
        @ ?pre @ [OnLogUpdate (error_entry (clock (length pre + 2)) (step_error bad))]"
    by simp
next
  assume a: "snd (try_body parse clock reply) = Some e"
  then obtain evs where t: "try_body parse clock reply = (evs, Some e)"
    by (cases "try_body parse clock reply") simp
  note s = sim_of_failure [OF t]
  show "last (simulateAgentExecution parse clock reply)
          = OnLogUpdate \<lparr>timestamp = clock (length (simulateAgentExecution parse clock reply) - 1),
                         message = failure_prefix @ error_message e, type = Error\<rparr>"
    unfolding s by (simp add: error_entry_def)
  show "\<forall>ev\<in>set (simulateAgentExecution parse clock reply). \<not> is_completion ev"
    unfolding s using try_body_failure_no_completion [OF t] by auto
qed

theorem simulation_failure_trace_witness:
  "simulateAgentExecution (\<lambda>t. Inl (JsError (ascii ''Unexpected token''))) (\<lambda>k. ascii ''t'')
       (Inl (JsError (ascii ''quota'')))
     = [OnLogUpdate \<lparr>timestamp = ascii ''t'', message = system_notice, type = Process\<rparr>,
        OnLogUpdate \<lparr>timestamp = ascii ''t'', message = failure_prefix @ ascii ''quota'', type = Error\<rparr>]
   \<and> simulateAgentExecution (\<lambda>t. Inl (JsError (ascii ''Unexpected token''))) (\<lambda>k. ascii ''t'')
       (Inr (Some (ascii ''oops'')))
     = [OnLogUpdate \<lparr>timestamp = ascii ''t'', message = system_notice, type = Process\<rparr>,
        OnLogUpdate \<lparr>timestamp = ascii ''t'', message = failure_prefix @ ascii ''Unexpected token'',
                      type = Error\<rparr>]
   \<and> simulateAgentExecution (\<lambda>t. Inr (JObj [])) (\<lambda>k. ascii ''t'') (Inr (Some (ascii ''{}'')))
     = [OnLogUpdate \<lparr>timestamp = ascii ''t'', message = system_notice, type = Process\<rparr>,
        OnLogUpdate \<lparr>timestamp = ascii ''t'', message = brain_notice, type = Brain\<rparr>,
        OnLogUpdate \<lparr>timestamp = ascii ''t'',
                      message = failure_prefix @ ascii ''result.steps is not iterable'', type = Error\<rparr>]
   \<and> filter is_completion
         (simulateAgentExecution (\<lambda>t. Inr (JObj [])) (\<lambda>k. ascii ''t'') (Inr (Some (ascii ''{}'')))) = []
   \<and> simulateAgentExecution
       (\<lambda>t. Inr (JObj [(ascii ''steps'',
                         JArr [JObj [(ascii ''thought'', JObj [(ascii ''toString'', JNum (ascii ''1''))]),
                                     (ascii ''action'', JStr (ascii ''a'')),
                                     (ascii ''type'', JStr (ascii ''info''))]]),
                       (ascii ''files'', JArr [])]))
       (\<lambda>k. ascii ''t'') (Inr (Some (ascii ''r'')))
     = [OnLogUpdate \<lparr>timestamp = ascii ''t'', message = system_notice, type = Process\<rparr>,
        OnLogUpdate \<lparr>timestamp = ascii ''t'', message = brain_notice, type = Brain\<rparr>,
        OnLogUpdate \<lparr>timestamp = ascii ''t'',
                      message = failure_prefix @ ascii ''Cannot convert object to primitive value'',
                      type = Error\<rparr>]
   \<and> simulateAgentExecution
       (\<lambda>t. Inr (JObj [(ascii ''steps'',
                         JArr [JObj [(ascii ''thought'', JStr (ascii ''x'')),
                                     (ascii ''action'', JStr (ascii ''y'')),
                                     (ascii ''type'', JStr (ascii ''error''))],
                               JNull]),
                       (ascii ''files'', JArr [])]))
       (\<lambda>k. ascii ''t'') (Inr (Some (ascii ''r'')))
     = [OnLogUpdate \<lparr>timestamp = ascii ''t'', message = system_notice, type = Process\<rparr>,
        OnLogUpdate \<lparr>timestamp = ascii ''t'', message = brain_notice, type = Brain\<rparr>,
        OnLogUpdate \<lparr>timestamp = ascii ''t'', message = ascii ''x -> y'', type = Error\<rparr>,
        OnLogUpdate \<lparr>timestamp = ascii ''t'',
                      message = failure_prefix @ ascii ''Cannot read properties of null (reading type)'',
                      type = Error\<rparr>]"
proof -
  let ?bad = "\<lambda>t::jstring. (Inl (JsError (ascii ''Unexpected token'')) :: js_error + json)"
  let ?empty = "\<lambda>t::jstring. (Inr (JObj []) :: js_error + json)"
  let ?clock = "\<lambda>k::nat. ascii ''t''"
  let ?e3 = "JsError (ascii ''result.steps is not iterable'')"
  let ?conv = "JObj [(ascii ''thought'', JObj [(ascii ''toString'', JNum (ascii ''1''))]),
                     (ascii ''action'', JStr (ascii ''a'')),
                     (ascii ''type'', JStr (ascii ''info''))]"
  let ?r4 = "JObj [(ascii ''steps'', JArr [?conv]), (ascii ''files'', JArr [])]"
  let ?p4 = "\<lambda>t::jstring. (Inr ?r4 :: js_error + json)"
  let ?err = "JObj [(ascii ''thought'', JStr (ascii ''x'')),
                    (ascii ''action'', JStr (ascii ''y'')),
                    (ascii ''type'', JStr (ascii ''error''))]"
  let ?r5 = "JObj [(ascii ''steps'', JArr [?err, JNull]), (ascii ''files'', JArr [])]"
  let ?p5 = "\<lambda>t::jstring. (Inr ?r5 :: js_error + json)"
  have a: "simulateAgentExecution ?bad ?clock (Inl (JsError (ascii ''quota'')))
     = [OnLogUpdate (system_entry (ascii ''t'')), OnLogUpdate (error_entry (ascii ''t'') (JsError (ascii ''quota'')))]"
    using simulation_failure_trace [of "Inl (JsError (ascii ''quota''))" "JsError (ascii ''quota'')" ?bad ?clock]
    by simp
  have "response_json ?bad (Some (ascii ''oops'')) = Inl (JsError (ascii ''Unexpected token''))"
    by (simp add: response_json_def)
  then have b: "simulateAgentExecution ?bad ?clock (Inr (Some (ascii ''oops'')))
     = [OnLogUpdate (system_entry (ascii ''t'')),
        OnLogUpdate (error_entry (ascii ''t'') (JsError (ascii ''Unexpected token'')))]"
    using simulation_failure_trace [of "Inr (Some (ascii ''oops''))" "JsError (ascii ''Unexpected token'')"
        ?bad ?clock "Some (ascii ''oops'')"]
    by simp
  have r: "response_json ?empty (Some (ascii ''{}'')) = Inr (JObj [])"
    by (simp add: response_json_def)
  have g: "get_prop (Some (JObj [])) (ascii ''steps'') = Inr None \<and> js_iterate None = Inl ?e3" by simp
  from r g have c: "simulateAgentExecution ?empty ?clock (Inr (Some (ascii ''{}'')))
     = [OnLogUpdate (system_entry (ascii ''t'')), OnLogUpdate (brain_entry (ascii ''t'')),
        OnLogUpdate (error_entry (ascii ''t'') ?e3)]"
    using simulation_failure_trace [of "Inr (Some (ascii ''{}''))" ?e3 ?empty ?clock "Some (ascii ''{}'')" "JObj []"]
    by blast
  have "snd (try_body ?empty ?clock (Inr (Some (ascii ''{}'')))) = Some ?e3"
    using r g by (simp add: try_body_def)
  then have "\<forall>ev\<in>set (simulateAgentExecution ?empty ?clock (Inr (Some (ascii ''{}'')))). \<not> is_completion ev"
    using simulation_failure_trace [of "Inr (Some (ascii ''{}''))" ?e3 ?empty ?clock "Some (ascii ''{}'')" "JObj []"]
    by blast
  then have d: "filter is_completion (simulateAgentExecution ?empty ?clock (Inr (Some (ascii ''{}'')))) = []"
    by (simp add: filter_empty_conv)
  have r4: "response_json ?p4 (Some (ascii ''r'')) = Inr ?r4" by (simp add: response_json_def)
  have f4: "field_of ?r4 (ascii ''steps'') = Some (JArr ([] @ ?conv # []))" by (simp add: field_of_def)
  have b4: "step_fails ?conv" by (simp add: step_eval)
  from r4 f4 b4
  have "simulateAgentExecution ?p4 ?clock (Inr (Some (ascii ''r''))) =
        [OnLogUpdate (system_entry (?clock 0)), OnLogUpdate (brain_entry (?clock 1))]
        @ map (\<lambda>(k, st). OnLogUpdate (step_entry (?clock k) st)) (enumerate 2 [])
        @ [OnLogUpdate (error_entry (?clock (length ([]::json list) + 2)) (step_error ?conv))]"
    using simulation_failure_trace [of "Inr (Some (ascii ''r''))" _ ?p4 ?clock "Some (ascii ''r'')" ?r4
        _ _ _ "[]" ?conv "[]"]
    by simp
  then have e: "simulateAgentExecution ?p4 ?clock (Inr (Some (ascii ''r''))) =
       [OnLogUpdate (system_entry (ascii ''t'')), OnLogUpdate (brain_entry (ascii ''t'')),
        OnLogUpdate (error_entry (ascii ''t'') (JsError (ascii ''Cannot convert object to primitive value'')))]"
    by (simp add: step_eval)
  have r5: "response_json ?p5 (Some (ascii ''r'')) = Inr ?r5" by (simp add: response_json_def)
  have f5: "field_of ?r5 (ascii ''steps'') = Some (JArr ([?err] @ JNull # []))" by (simp add: field_of_def)
  have o5: "\<forall>st\<in>set [?err]. \<not> step_fails st" by (simp add: step_eval)
  have b5: "step_fails JNull" by (simp add: step_eval)
  from r5 f5 o5 b5
  have "simulateAgentExecution ?p5 ?clock (Inr (Some (ascii ''r''))) =
        [OnLogUpdate (system_entry (?clock 0)), OnLogUpdate (brain_entry (?clock 1))]
        @ map (\<lambda>(k, st). OnLogUpdate (step_entry (?clock k) st)) (enumerate 2 [?err])
        @ [OnLogUpdate (error_entry (?clock (length [?err] + 2)) (step_error JNull))]"
    using simulation_failure_trace [of "Inr (Some (ascii ''r''))" _ ?p5 ?clock "Some (ascii ''r'')" ?r5
        _ _ _ "[?err]" JNull "[]"]
    by simp
  then have f: "simulateAgentExecution ?p5 ?clock (Inr (Some (ascii ''r''))) =
       [OnLogUpdate (system_entry (ascii ''t'')), OnLogUpdate (brain_entry (ascii ''t'')),
        OnLogUpdate \<lparr>timestamp = ascii ''t'', message = ascii ''x -> y'', type = Error\<rparr>,
        OnLogUpdate (error_entry (ascii ''t'')
          (JsError (ascii ''Cannot read properties of null (reading type)'')))]"
    by (simp add: step_eval)
  from a b c d e f show ?thesis
    by (simp add: system_entry_def brain_entry_def error_entry_def)
qed

text \<open>
  A response that is valid JSON but has no \<^verbatim>\<open>files\<close>: no error entry is made, and
  \<^verbatim>\<open>onCompletion\<close> is called with \<^verbatim>\<open>undefined\<close>.
\<close>

theorem simulation_schema_counterexample:
  \<open>simulateAgentExecution
     (\<lambda>t. if t = ascii ''{"steps":[]}'' then Inr (JObj [(ascii ''steps'', JArr [])])
           else Inl (JsError (ascii ''Unexpected token'')))
     (\<lambda>k. ascii ''t'')
     (Inr (Some (ascii ''{"steps":[]}'')))
   = [OnLogUpdate \<lparr>timestamp = ascii ''t'', message = system_notice, type = Process\<rparr>,
      OnLogUpdate \<lparr>timestamp = ascii ''t'', message = brain_notice, type = Brain\<rparr>,
      OnCompletion None]\<close>
  by (simp add: simulateAgentExecution_def try_body_def response_json_def system_entry_def
        brain_entry_def)

section \<open>The orchestrator\<close>

subsection \<open>Reconciliation\<close>

lemma find_id_None: "find (\<lambda>m. job_id m = i) merged = None \<longleftrightarrow> i \<notin> job_id ` set merged"
  by (induction merged) auto

lemma push_simulations_keeps: "set merged \<subseteq> set (push_simulations merged sims)"
proof (induction sims arbitrary: merged)
  case Nil
  then show ?case by simp
next
  case (Cons sim sims)
  have "set merged \<subseteq> set (if find (\<lambda>m. job_id m = job_id sim) merged = None then merged @ [sim] else merged)"
    by auto
  also have "\<dots> \<subseteq> set (push_simulations merged (sim # sims))"
    using Cons.IH by simp
  finally show ?case .
qed

lemma push_simulations_from: "set (push_simulations merged sims) \<subseteq> set merged \<union> set sims"
proof (induction sims arbitrary: merged)
  case Nil
  then show ?case by simp
next
  case (Cons sim sims)
  let ?m = "if find (\<lambda>m. job_id m = job_id sim) merged = None then merged @ [sim] else merged"
  have "set (push_simulations merged (sim # sims)) \<subseteq> set ?m \<union> set sims"
    using Cons.IH [of ?m] by simp
  also have "\<dots> \<subseteq> set merged \<union> set (sim # sims)" by auto
  finally show ?case .
qed

lemma push_simulations_id:
  "sim \<in> set sims \<Longrightarrow> job_id sim \<in> job_id ` set (push_simulations merged sims)"
proof (induction sims arbitrary: merged)
  case Nil
  then show ?case by simp
next
  case (Cons x sims)
  let ?m = "if find (\<lambda>m. job_id m = job_id x) merged = None then merged @ [x] else merged"
  show ?case
  proof (cases "sim = x")
    case True
    have "job_id x \<in> job_id ` set ?m"
      by (simp add: find_id_None)
    then have "job_id x \<in> job_id ` set (push_simulations ?m sims)"
      using push_simulations_keeps [of ?m sims] by blast
    with True show ?thesis by simp
  next
    case False
    with Cons.prems have "sim \<in> set sims" by simp
    from Cons.IH [OF this, of ?m] show ?thesis by simp
  qed
qed

lemma push_simulations_first:
  assumes "sim \<in> set sims"
    and "job_id sim \<notin> job_id ` set merged"
    and "\<forall>k\<in>set sims. job_id k = job_id sim \<longrightarrow> k = sim"
  shows "sim \<in> set (push_simulations merged sims)"
  using assms
proof (induction sims arbitrary: merged)
  case Nil
  then show ?case by simp
next
  case (Cons x sims)
  let ?m = "if find (\<lambda>m. job_id m = job_id x) merged = None then merged @ [x] else merged"
  show ?case
  proof (cases "sim = x")
    case True
    with Cons.prems(2) have "find (\<lambda>m. job_id m = job_id x) merged = None"
      by (simp add: find_id_None)
    then have "x \<in> set ?m" by simp
    with push_simulations_keeps [of ?m sims] True show ?thesis by auto
  next
    case False
    with Cons.prems have in_rest: "sim \<in> set sims" and ne: "job_id x \<noteq> job_id sim"
      and uniq: "\<forall>k\<in>set sims. job_id k = job_id sim \<longrightarrow> k = sim" by auto
    from ne Cons.prems(2) have "job_id sim \<notin> job_id ` set ?m" by auto
    from Cons.IH [OF in_rest this uniq] show ?thesis by simp
  qed
qed

lemma set_merge_jobs:
  "set (merge_jobs prev data) =
     set (push_simulations (map (\<lambda>j. j\<lparr>is_simulation := Some False\<rparr>) data)
            (filter (\<lambda>j. is_simulation j = Some True) prev))"
  by (simp add: merge_jobs_def sort_jobs_def)

lemma server_jobs_in_merge:
  "d \<in> set data \<Longrightarrow> d\<lparr>is_simulation := Some False\<rparr> \<in> set (merge_jobs prev data)"
  unfolding set_merge_jobs
  using push_simulations_keeps [of "map (\<lambda>j. j\<lparr>is_simulation := Some False\<rparr>) data"] by auto

text \<open>
  C1. The merge keeps every job reported by the server (with its simulation flag set to
  false), and for every simulation job of the store whose id the server does not report
  it keeps a simulation job of the store with that id: that very job, when no other
  simulation job of the store carries the same id, as is the case in a store whose ids
  are unique.
\<close>

theorem merge_keeps_simulations:
  "(\<forall>d\<in>set data. d\<lparr>is_simulation := Some False\<rparr> \<in> set (merge_jobs prev data))
   \<and> (j \<in> set prev \<and> is_simulation j = Some True \<and> job_id j \<notin> job_id ` set data \<longrightarrow>
        (\<exists>k\<in>set (merge_jobs prev data).
            job_id k = job_id j \<and> is_simulation k = Some True \<and> k \<in> set prev)
        \<and> ((\<forall>k\<in>set prev. is_simulation k = Some True \<and> job_id k = job_id j \<longrightarrow> k = j)
              \<longrightarrow> j \<in> set (merge_jobs prev data)))"
proof (intro conjI impI ballI)
  fix d assume "d \<in> set data"
  then show "d\<lparr>is_simulation := Some False\<rparr> \<in> set (merge_jobs prev data)"
    by (rule server_jobs_in_merge)
next
  let ?api = "map (\<lambda>j. j\<lparr>is_simulation := Some False\<rparr>) data"
  let ?sims = "filter (\<lambda>j. is_simulation j = Some True) prev"
  assume a: "j \<in> set prev \<and> is_simulation j = Some True \<and> job_id j \<notin> job_id ` set data"
  then have in_sims: "j \<in> set ?sims" by simp
  from a have fresh: "job_id j \<notin> job_id ` set ?api" by (auto simp: image_iff)
  from push_simulations_id [OF in_sims, of ?api]
  obtain k where k: "k \<in> set (push_simulations ?api ?sims)" "job_id k = job_id j" by auto
  with fresh have "k \<notin> set ?api" by (metis imageI)
  with k(1) push_simulations_from [of ?api ?sims] have "k \<in> set ?sims" by auto
  with k show "\<exists>k\<in>set (merge_jobs prev data).
            job_id k = job_id j \<and> is_simulation k = Some True \<and> k \<in> set prev"
    unfolding set_merge_jobs by auto
next
  let ?api = "map (\<lambda>j. j\<lparr>is_simulation := Some False\<rparr>) data"
  let ?sims = "filter (\<lambda>j. is_simulation j = Some True) prev"
  assume a: "j \<in> set prev \<and> is_simulation j = Some True \<and> job_id j \<notin> job_id ` set data"
    and u: "\<forall>k\<in>set prev. is_simulation k = Some True \<and> job_id k = job_id j \<longrightarrow> k = j"
  from a have in_sims: "j \<in> set ?sims" by simp
  from a have fresh: "job_id j \<notin> job_id ` set ?api" by (auto simp: image_iff)
  from u have "\<forall>k\<in>set ?sims. job_id k = job_id j \<longrightarrow> k = j" by simp
  from push_simulations_first [OF in_sims fresh this]
  show "j \<in> set (merge_jobs prev data)" unfolding set_merge_jobs .
qed

theorem merge_keeps_simulations_witness:
  "sample_job (ascii ''sim-1'') 5 (Some True) \<in> set (merge_jobs [sample_job (ascii ''sim-1'') 5 (Some True)] [sample_job (ascii ''a1'') 9 None])
   \<and> (sample_job (ascii ''a1'') 9 None)\<lparr>is_simulation := Some False\<rparr>
        \<in> set (merge_jobs [sample_job (ascii ''sim-1'') 5 (Some True)] [sample_job (ascii ''a1'') 9 None])"
proof -
  let ?sim = "sample_job (ascii ''sim-1'') 5 (Some True)"
  let ?srv = "sample_job (ascii ''a1'') 9 None"
  have h: "?sim \<in> set [?sim] \<and> is_simulation ?sim = Some True \<and> job_id ?sim \<notin> job_id ` set [?srv]"
    by (simp add: sample_job_def)
  have u: "\<forall>k\<in>set [?sim]. is_simulation k = Some True \<and> job_id k = job_id ?sim \<longrightarrow> k = ?sim"
    by simp
  have d: "?srv \<in> set [?srv]" by simp
  from merge_keeps_simulations [of "[?srv]" "[?sim]" ?sim] h u d show ?thesis by blast
qed

subsection \<open>Polling\<close>

text \<open>
  C7. A poll never ends in an exception. When the request for the job list fails, the
  online flag becomes false and the jobs and the selection stay as they were; when it
  succeeds, the flag becomes true.
\<close>

theorem poll_outcomes:
  "(\<exists>s'. fetchJobsList res s = Inr s')
   \<and> (listJobs res = Inl e \<longrightarrow>
        (\<exists>s'. fetchJobsList res s = Inr s' \<and> isBackendOnline s' = False
              \<and> jobs s' = jobs s \<and> activeJobId s' = activeJobId s \<and> isModalOpen s' = isModalOpen s))
   \<and> (listJobs res = Inr data \<longrightarrow>
        (\<exists>s'. fetchJobsList res s = Inr s' \<and> isBackendOnline s' = True
              \<and> jobs s' = merge_jobs (jobs s) data))"
  by (cases "listJobs res") (simp_all add: fetchJobsList_def)

theorem poll_outcomes_witness:
  "listJobs (Response False (Inr [])) = Inl (JsError (ascii ''Failed to fetch jobs''))
   \<and> (\<exists>s'. fetchJobsList (Response False (Inr []))
              (initial_state\<lparr>jobs := [sample_job (ascii ''sim-1'') 5 (Some True)]\<rparr>) = Inr s'
          \<and> isBackendOnline s' = False \<and> jobs s' = [sample_job (ascii ''sim-1'') 5 (Some True)])
   \<and> listJobs (Response True (Inr [])) = Inr []
   \<and> (\<exists>s'. fetchJobsList (Response True (Inr []))
              (initial_state\<lparr>isBackendOnline := False\<rparr>) = Inr s'
          \<and> isBackendOnline s' = True)"
proof -
  let ?s = "initial_state\<lparr>jobs := [sample_job (ascii ''sim-1'') 5 (Some True)]\<rparr>"
  have f: "listJobs (Response False (Inr [])) = Inl (JsError (ascii ''Failed to fetch jobs''))"
    by (simp add: listJobs_def)
  have g: "listJobs (Response True (Inr [])) = Inr []"
    by (simp add: listJobs_def)
  from f poll_outcomes [of "Response False (Inr [])" ?s "JsError (ascii ''Failed to fetch jobs'')"]
  have 1: "\<exists>s'. fetchJobsList (Response False (Inr [])) ?s = Inr s'
          \<and> isBackendOnline s' = False \<and> jobs s' = [sample_job (ascii ''sim-1'') 5 (Some True)]"
    by auto
  from g poll_outcomes [of "Response True (Inr [])" "initial_state\<lparr>isBackendOnline := False\<rparr>" _ "[]"]
  have 2: "\<exists>s'. fetchJobsList (Response True (Inr [])) (initial_state\<lparr>isBackendOnline := False\<rparr>) = Inr s'
          \<and> isBackendOnline s' = True"
    by auto
  from f g 1 2 show ?thesis by blast
qed

subsection \<open>Creating a job\<close>

lemma on_log_head:
  "job_id j = i \<Longrightarrow>
     on_log i l (j # js) =
       j\<lparr>logs := logs j @ [91] @ timestamp l @ (ascii ''] '') @ message l @ [10]\<rparr> # on_log i l js"
  by (simp add: on_log_def)

lemma length_on_log: "length (on_log i l js) = length js"
  by (simp add: on_log_def)

lemma scan_ts_skip:
  "\<forall>c\<in>set g. c \<noteq> 93 \<and> \<not> line_term c \<Longrightarrow> scan_ts acc (g @ rest) = scan_ts (rev g @ acc) rest"
  by (induction g arbitrary: acc) simp_all

lemma fallback_line_format:
  assumes "\<forall>c\<in>set t. c \<noteq> 93 \<and> c \<noteq> 84 \<and> \<not> line_term c"
  shows "format_line (ascii ''['' @ t @ ascii ''] '' @ offline_notice)
           = \<lparr>timestamp = t, message = offline_notice, type = Process\<rparr>"
proof -
  from assms have g: "\<forall>c\<in>set t. c \<noteq> 93 \<and> \<not> line_term c" and n: "84 \<notin> set t" by auto
  have "ts_match (ascii ''['' @ t @ ascii ''] '' @ offline_notice) = scan_ts (rev t) (93 # 32 # offline_notice)"
    using scan_ts_skip [OF g, of "[]" "93 # 32 # offline_notice"] by (simp add: ts_match_def)
  also have "\<dots> = Some (t, offline_notice)"
    by (simp add: tail_ok_def js_space_def line_term_def offline_notice_def)
  finally have m: "ts_match (ascii ''['' @ t @ ascii ''] '' @ offline_notice) = Some (t, offline_notice)" .
  have c: "classify offline_notice = Process"
    by (simp add: classify_def offline_notice_def toLowerCase_def lower_unit_def)
  from n have "short_ts t = t" by (simp add: short_ts_def includes_char)
  with m c show ?thesis by (simp add: format_line_def)
qed

lemma first_line: "10 \<notin> set l \<Longrightarrow> hd (split_on 10 (l @ 10 # rest)) = l"
  by (simp add: split_on_append)

text \<open>
  C4. With the online flag false, creating a job sends nothing through the remote job
  client and always ends normally; the store gains one job, at its head, with the
  simulation flag set, status running and no files; that job is the active one. Its log
  opens with the fallback line: the time of day in brackets and the notice, tagged
  \<^verbatim>\<open>[SYSTEM]\<close>, that the backend is not connected, which the formatter shows as one entry
  of type process. The simulation's own announcement follows it.
\<close>

theorem create_offline_simulates:
  assumes "\<not> isBackendOnline s"
  shows "\<exists>s'. handleCreateJob task_text repo persona_text useSearch env s = Inr s'
           \<and> api_calls s' = api_calls s
           \<and> activeJobId s' = Some (ascii ''sim-'' @ random_suffix env)
           \<and> length (jobs s') = Suc (length (jobs s))
           \<and> job_id (hd (jobs s')) = ascii ''sim-'' @ random_suffix env
           \<and> is_simulation (hd (jobs s')) = Some True
           \<and> status (hd (jobs s')) = Running
           \<and> files (hd (jobs s')) = Some (JArr [])
           \<and> task (hd (jobs s')) = task_text
           \<and> logs (hd (jobs s')) =
               (ascii ''['' @ now_time env @ ascii ''] '' @ offline_notice) @ 10
                 # (ascii ''['' @ sim_time env @ ascii ''] '' @ system_notice) @ [10]
           \<and> take 9 offline_notice = ascii ''[SYSTEM] ''
           \<and> ((\<forall>c\<in>set (now_time env). c \<noteq> 93 \<and> c \<noteq> 84 \<and> \<not> line_term c) \<longrightarrow>
                hd (split_on 10 (logs (hd (jobs s'))))
                  = ascii ''['' @ now_time env @ ascii ''] '' @ offline_notice
                \<and> format_line (hd (split_on 10 (logs (hd (jobs s')))))
                  = \<lparr>timestamp = now_time env, message = offline_notice, type = Process\<rparr>)"
proof -
  let ?s' = "simulation_fallback task_text repo persona_text useSearch env s"
  let ?line = "ascii ''['' @ now_time env @ ascii ''] '' @ offline_notice"
  let ?rest = "(ascii ''['' @ sim_time env @ ascii ''] '' @ system_notice) @ [10]"
  from assms have r: "handleCreateJob task_text repo persona_text useSearch env s = Inr ?s'"
    by (simp add: handleCreateJob_def)
  have l: "logs (hd (jobs ?s')) = ?line @ 10 # ?rest"
    by (simp add: simulation_fallback_def new_simulation_job_def on_log_head system_entry_def
          fallback_log_def Let_def)
  have f: "api_calls ?s' = api_calls s" "activeJobId ?s' = Some (ascii ''sim-'' @ random_suffix env)"
    "length (jobs ?s') = Suc (length (jobs s))" "job_id (hd (jobs ?s')) = ascii ''sim-'' @ random_suffix env"
    "is_simulation (hd (jobs ?s')) = Some True" "status (hd (jobs ?s')) = Running"
    "files (hd (jobs ?s')) = Some (JArr [])" "task (hd (jobs ?s')) = task_text"
    by (simp_all add: simulation_fallback_def new_simulation_job_def on_log_head length_on_log Let_def)
  have t: "take 9 offline_notice = ascii ''[SYSTEM] ''"
    by (simp add: offline_notice_def)
  have fmt: "hd (split_on 10 (logs (hd (jobs ?s')))) = ?line
        \<and> format_line (hd (split_on 10 (logs (hd (jobs ?s')))))
            = \<lparr>timestamp = now_time env, message = offline_notice, type = Process\<rparr>"
    if c: "\<forall>c\<in>set (now_time env). c \<noteq> 93 \<and> c \<noteq> 84 \<and> \<not> line_term c"
  proof -
    from c have "10 \<notin> set (now_time env)" by (auto simp: line_term_def)
    then have "10 \<notin> set ?line" by (simp add: offline_notice_def)
    from first_line [OF this, of ?rest] l have "hd (split_on 10 (logs (hd (jobs ?s')))) = ?line"
      by simp
    with fallback_line_format [OF c] show ?thesis by simp
  qed
  from r l f t fmt show ?thesis by blast
qed

theorem create_offline_simulates_witness:
  "\<not> isBackendOnline (initial_state\<lparr>isBackendOnline := False\<rparr>)
   \<and> (\<exists>s'. handleCreateJob (ascii ''demo'') None None None (sample_env (Response True (Inr (ascii ''a1''))) 7)
              (initial_state\<lparr>isBackendOnline := False\<rparr>) = Inr s'
          \<and> api_calls s' = []
          \<and> activeJobId s' = Some (ascii ''sim-k3x9qa'')
          \<and> is_simulation (hd (jobs s')) = Some True
          \<and> status (hd (jobs s')) = Running
          \<and> files (hd (jobs s')) = Some (JArr [])
          \<and> logs (hd (jobs s')) =
               ascii ''[10:00:00] ''
               @ ascii ''[SYSTEM] ''
          @ [0x0627, 0x0644, 0x0645, 0x062D, 0x0631, 0x0643, 0x0020, 0x0627, 0x0644, 0x062E,
           0x0644, 0x0641, 0x064A, 0x0020, 0x063A, 0x064A, 0x0631, 0x0020, 0x0645, 0x062A,
           0x0635, 0x0644, 0x002E, 0x0020, 0x0628, 0x062F, 0x0621, 0x0020, 0x0627, 0x0644,
           0x0645, 0x062D, 0x0627, 0x0643, 0x0627, 0x0629, 0x0020, 0x0627, 0x0644, 0x0645,
           0x062D, 0x0644, 0x064A, 0x0629, 0x0020, 0x0627, 0x0644, 0x0645, 0x0633, 0x062A,
           0x0642, 0x0644, 0x0629]
          @ ascii ''...''
               @ [10]
               @ ascii ''[10:00:00] ''
               @ ascii ''[SYSTEM] ''
          @ [0x062A, 0x0639, 0x0630, 0x0631, 0x0020, 0x0627, 0x0644, 0x0627, 0x062A, 0x0635,
           0x0627, 0x0644, 0x0020, 0x0628, 0x0640, 0x0020, 0x0041, 0x0050, 0x0049, 0x0020,
           0x0627, 0x0644, 0x062E, 0x0644, 0x0641, 0x064A, 0x002E, 0x0020, 0x0627, 0x0644,
           0x0627, 0x0646, 0x062A, 0x0642, 0x0627, 0x0644, 0x0020, 0x0625, 0x0644, 0x0649,
           0x0020, 0x0646, 0x0645, 0x0637, 0x0020, 0x0627, 0x0644, 0x0645, 0x062D, 0x0627,
           0x0643, 0x0627, 0x0629, 0x0020, 0x0627, 0x0644, 0x0645, 0x062D, 0x0644, 0x064A,
           0x0629, 0x0020, 0x0627, 0x0644, 0x0645, 0x0633, 0x062A, 0x0642, 0x0644, 0x0629]
          @ ascii ''...''
               @ [10]
          \<and> format_line (hd (split_on 10 (logs (hd (jobs s')))))
               = \<lparr>timestamp = ascii ''10:00:00'', message = offline_notice, type = Process\<rparr>)"
proof -
  let ?env = "sample_env (Response True (Inr (ascii ''a1''))) 7"
  have h: "\<not> isBackendOnline (initial_state\<lparr>isBackendOnline := False\<rparr>)" by simp
  have c: "\<forall>c\<in>set (now_time ?env). c \<noteq> 93 \<and> c \<noteq> 84 \<and> \<not> line_term c"
    by (simp add: sample_env_def line_term_def)
  from create_offline_simulates [OF h, of "ascii ''demo''" None None None ?env] c
  show ?thesis
    by (auto simp: sample_env_def initial_state_def offline_notice_def system_notice_def)
qed

subsection \<open>Deleting a job\<close>

lemma on_log_absent: "i \<notin> job_id ` set js \<Longrightarrow> on_log i l js = js"
  unfolding on_log_def by (rule map_idI) auto

lemma on_complete_absent: "i \<notin> job_id ` set js \<Longrightarrow> on_complete i fs js = js"
  unfolding on_complete_def by (rule map_idI) auto

text \<open>
  C8, as the code has it. Once the user has accepted the prompt, deleting a job removes
  every job with that id from the store and clears the selection if that job was the
  active one; when the prompt is declined nothing changes. A callback for an id that is
  absent from the store leaves the store as it is.
\<close>

theorem delete_and_late_callbacks:
  "jobs (handleDeleteJob i True s) = filter (\<lambda>j. job_id j \<noteq> i) (jobs s)
   \<and> i \<notin> job_id ` set (jobs (handleDeleteJob i True s))
   \<and> (activeJobId s = Some i \<longrightarrow> activeJobId (handleDeleteJob i True s) = None)
   \<and> (activeJobId s \<noteq> Some i \<longrightarrow> activeJobId (handleDeleteJob i True s) = activeJobId s)
   \<and> handleDeleteJob i False s = s
   \<and> (i \<notin> job_id ` set js \<longrightarrow> on_log i l js = js \<and> on_complete i fs js = js)
   \<and> on_log i l (jobs (handleDeleteJob i True s)) = jobs (handleDeleteJob i True s)
   \<and> on_complete i fs (jobs (handleDeleteJob i True s)) = jobs (handleDeleteJob i True s)"
proof -
  have absent: "i \<notin> job_id ` set (jobs (handleDeleteJob i True s))"
    by (auto simp: handleDeleteJob_def)
  from absent on_log_absent on_complete_absent show ?thesis
    by (simp add: handleDeleteJob_def)
qed

theorem delete_and_late_callbacks_witness:
  "activeJobId (initial_state\<lparr>jobs := [sample_job (ascii ''sim-1'') 5 (Some True)], activeJobId := Some (ascii ''sim-1'')\<rparr>)
     = Some (ascii ''sim-1'')
   \<and> jobs (handleDeleteJob (ascii ''sim-1'') True
        (initial_state\<lparr>jobs := [sample_job (ascii ''sim-1'') 5 (Some True)], activeJobId := Some (ascii ''sim-1'')\<rparr>)) = []
   \<and> activeJobId (handleDeleteJob (ascii ''sim-1'') True
        (initial_state\<lparr>jobs := [sample_job (ascii ''sim-1'') 5 (Some True)], activeJobId := Some (ascii ''sim-1'')\<rparr>)) = None
   \<and> (ascii ''sim-1'') \<notin> job_id ` set [sample_job (ascii ''a1'') 9 None]
   \<and> on_log (ascii ''sim-1'') (system_entry (ascii ''10:00:01'')) [sample_job (ascii ''a1'') 9 None] = [sample_job (ascii ''a1'') 9 None]
   \<and> on_complete (ascii ''sim-1'') None [sample_job (ascii ''a1'') 9 None] = [sample_job (ascii ''a1'') 9 None]"
proof -
  let ?s = "initial_state\<lparr>jobs := [sample_job (ascii ''sim-1'') 5 (Some True)], activeJobId := Some (ascii ''sim-1'')\<rparr>"
  have a: "activeJobId ?s = Some (ascii ''sim-1'')" by simp
  have n: "(ascii ''sim-1'') \<notin> job_id ` set [sample_job (ascii ''a1'') 9 None]" by (simp add: sample_job_def)
  have f: "filter (\<lambda>j. job_id j \<noteq> (ascii ''sim-1'')) (jobs ?s) = []" by (simp add: sample_job_def)
  from delete_and_late_callbacks [of "(ascii ''sim-1'')" ?s "[sample_job (ascii ''a1'') 9 None]" "system_entry (ascii ''10:00:01'')" None]
    a n f
  show ?thesis by simp
qed

text \<open>
  With the prompt declined, the job stays in the store and stays selected.
\<close>

theorem delete_declined_counterexample:
  "(ascii ''sim-1'') \<in> job_id ` set (jobs (handleDeleteJob (ascii ''sim-1'') False
      (initial_state\<lparr>jobs := [sample_job (ascii ''sim-1'') 5 (Some True)], activeJobId := Some (ascii ''sim-1'')\<rparr>)))
   \<and> activeJobId (handleDeleteJob (ascii ''sim-1'') False
      (initial_state\<lparr>jobs := [sample_job (ascii ''sim-1'') 5 (Some True)], activeJobId := Some (ascii ''sim-1'')\<rparr>))
     = Some (ascii ''sim-1'')"
  by (simp add: handleDeleteJob_def sample_job_def)

subsection \<open>Runs: requests sent and the order of the list\<close>

lemma step_total: "\<exists>s'. step a s = Inr s'"
  by (cases a)
    (auto simp: fetchJobsList_def handleCreateJob_def Let_def split: sum.splits)

lemma handleCreateJob_calls:
  "handleCreateJob task_text repo persona_text useSearch env s = Inr s' \<Longrightarrow>
     \<forall>c\<in>set (api_calls s). \<not> is_delete_call c \<Longrightarrow> \<forall>c\<in>set (api_calls s'). \<not> is_delete_call c"
  by (auto simp: handleCreateJob_def fetchJobsList_def simulation_fallback_def Let_def
        split: if_splits sum.splits)

lemma step_no_delete_call:
  assumes "step a s = Inr s'" "\<forall>c\<in>set (api_calls s). \<not> is_delete_call c"
  shows "\<forall>c\<in>set (api_calls s'). \<not> is_delete_call c"
proof (cases a)
  case (Poll res)
  with assms show ?thesis
    by (auto simp: fetchJobsList_def Let_def split: sum.splits)
next
  case (Create task_text repo persona_text useSearch env)
  with assms handleCreateJob_calls show ?thesis by simp
next
  case (Delete i confirmed)
  with assms show ?thesis by (cases confirmed) (auto simp: handleDeleteJob_def)
next
  case (Select i)
  with assms show ?thesis by auto
next
  case (SimLog i l)
  with assms show ?thesis by auto
next
  case (SimComplete i fs)
  with assms show ?thesis by auto
qed

lemma run_no_delete_call:
  "run acts s = Inr s' \<Longrightarrow> \<forall>c\<in>set (api_calls s). \<not> is_delete_call c
     \<Longrightarrow> \<forall>c\<in>set (api_calls s'). \<not> is_delete_call c"
proof (induction acts arbitrary: s)
  case Nil
  then show ?case by simp
next
  case (Cons a acts)
  from step_total obtain s1 where s1: "step a s = Inr s1" by blast
  with Cons.prems(1) have r: "run acts s1 = Inr s'" by simp
  from step_no_delete_call [OF s1 Cons.prems(2)] Cons.IH [OF r] show ?case by blast
qed

text \<open>
  C10. Deleting a job sends nothing through the remote job client, whatever the answer to
  the prompt, and no run of the component ever sends a delete request. A confirmed delete
  only filters the list in memory, so a job the server still reports is back in the store
  after the next successful poll.
\<close>

theorem delete_is_local_only:
  "api_calls (handleDeleteJob i confirmed s) = api_calls s
   \<and> jobs (handleDeleteJob i True s) = filter (\<lambda>j. job_id j \<noteq> i) (jobs s)
   \<and> (run acts initial_state = Inr s' \<longrightarrow> (\<forall>c\<in>set (api_calls s'). \<not> is_delete_call c))
   \<and> (listJobs res = Inr data \<and> j \<in> set data \<longrightarrow>
        (\<exists>s2. fetchJobsList res (handleDeleteJob (job_id j) True s) = Inr s2
              \<and> j\<lparr>is_simulation := Some False\<rparr> \<in> set (jobs s2)))"
proof (intro conjI impI)
  show "api_calls (handleDeleteJob i confirmed s) = api_calls s"
    by (simp add: handleDeleteJob_def)
  show "jobs (handleDeleteJob i True s) = filter (\<lambda>j. job_id j \<noteq> i) (jobs s)"
    by (simp add: handleDeleteJob_def)
next
  assume "run acts initial_state = Inr s'"
  from run_no_delete_call [OF this] show "\<forall>c\<in>set (api_calls s'). \<not> is_delete_call c"
    by (simp add: initial_state_def)
next
  assume "listJobs res = Inr data \<and> j \<in> set data"
  then show "\<exists>s2. fetchJobsList res (handleDeleteJob (job_id j) True s) = Inr s2
              \<and> j\<lparr>is_simulation := Some False\<rparr> \<in> set (jobs s2)"
    by (simp add: fetchJobsList_def server_jobs_in_merge)
qed

theorem delete_is_local_only_witness:
  "run [Poll (Response True (Inr [sample_job (ascii ''a1'') 9 None])), Delete (ascii ''a1'') True] initial_state
     = Inr \<lparr>jobs = [], activeJobId = None, isModalOpen = False, isBackendOnline = True,
            api_calls = [ListJobs]\<rparr>
   \<and> \<not> is_delete_call ListJobs
   \<and> listJobs (Response True (Inr [sample_job (ascii ''a1'') 9 None])) = Inr [sample_job (ascii ''a1'') 9 None]
   \<and> (\<exists>s2. fetchJobsList (Response True (Inr [sample_job (ascii ''a1'') 9 None]))
              (handleDeleteJob (ascii ''a1'') True
                 \<lparr>jobs = [(sample_job (ascii ''a1'') 9 None)\<lparr>is_simulation := Some False\<rparr>], activeJobId = None,
                  isModalOpen = False, isBackendOnline = True, api_calls = [ListJobs]\<rparr>) = Inr s2
          \<and> (sample_job (ascii ''a1'') 9 None)\<lparr>is_simulation := Some False\<rparr> \<in> set (jobs s2))"
proof -
  let ?srv = "sample_job (ascii ''a1'') 9 None"
  let ?res = "Response True (Inr [?srv]) :: Job list http_outcome"
  let ?s1 = "\<lparr>jobs = [?srv\<lparr>is_simulation := Some False\<rparr>], activeJobId = None,
                  isModalOpen = False, isBackendOnline = True, api_calls = [ListJobs]\<rparr>"
  let ?s2 = "\<lparr>jobs = [], activeJobId = None, isModalOpen = False, isBackendOnline = True,
            api_calls = [ListJobs]\<rparr>"
  have l: "listJobs ?res = Inr [?srv]" by (simp add: listJobs_def)
  have r: "run [Poll ?res, Delete (ascii ''a1'') True] initial_state = Inr ?s2"
    by (simp add: fetchJobsList_def listJobs_def merge_jobs_def sort_jobs_def handleDeleteJob_def
          initial_state_def sample_job_def Let_def)
  have i: "job_id ?srv = (ascii ''a1'')" by (simp add: sample_job_def)
  have m: "?srv \<in> set [?srv]" by simp
  from delete_is_local_only [of "(ascii ''a1'')" True ?s1 "[Poll ?res, Delete (ascii ''a1'') True]" ?s2 ?res "[?srv]" ?srv]
    l r i m
  show ?thesis by simp
qed

lemma newest_first_sort_jobs: "newest_first (sort_jobs js)"
proof -
  have "sorted (map (\<lambda>j. - created_at j) (sort_key (\<lambda>j. - created_at j) js))"
    by (rule sorted_sort_key)
  then show ?thesis
    by (simp add: newest_first_def sort_jobs_def sorted_map)
qed

lemma newest_first_merge: "newest_first (merge_jobs prev data)"
  by (simp add: merge_jobs_def newest_first_sort_jobs)

lemma newest_first_on_log: "newest_first js \<Longrightarrow> newest_first (on_log i l js)"
proof -
  assume a: "newest_first js"
  have "(\<lambda>x y. created_at (if job_id y = i then y\<lparr>logs := logs y @ [91] @ timestamp l @ (ascii ''] '') @ message l @ [10]\<rparr> else y)
           \<le> created_at (if job_id x = i then x\<lparr>logs := logs x @ [91] @ timestamp l @ (ascii ''] '') @ message l @ [10]\<rparr> else x))
        = (\<lambda>x y. created_at y \<le> created_at x)"
    by (intro ext) simp
  with a show ?thesis
    by (simp add: newest_first_def on_log_def sorted_wrt_map)
qed

lemma newest_first_on_complete: "newest_first js \<Longrightarrow> newest_first (on_complete i fs js)"
proof -
  assume a: "newest_first js"
  have "(\<lambda>x y. created_at (if job_id y = i then y\<lparr>status := Completed, files := fs\<rparr> else y)
           \<le> created_at (if job_id x = i then x\<lparr>status := Completed, files := fs\<rparr> else x))
        = (\<lambda>x y. created_at y \<le> created_at x)"
    by (intro ext) simp
  with a show ?thesis
    by (simp add: newest_first_def on_complete_def sorted_wrt_map)
qed

lemma on_log_bound:
  "\<forall>j\<in>set js. created_at j \<le> t \<Longrightarrow> \<forall>j\<in>set (on_log i l js). created_at j \<le> t"
  by (auto simp: on_log_def)

lemma newest_first_fallback:
  assumes "newest_first (jobs s)" "list_all (\<lambda>j. created_at j \<le> now_ms env) (jobs s)"
  shows "newest_first (jobs (simulation_fallback task_text repo persona_text useSearch env s))"
proof -
  let ?i = "(ascii ''sim-'') @ random_suffix env"
  let ?e = "system_entry (sim_time env)"
  from assms(2) have "\<forall>j\<in>set (jobs s). created_at j \<le> now_ms env"
    by (simp add: list_all_iff)
  then have "\<forall>j\<in>set (on_log ?i ?e (jobs s)). created_at j \<le> now_ms env"
    by (rule on_log_bound)
  with newest_first_on_log [OF assms(1), of ?i ?e] show ?thesis
    by (simp add: simulation_fallback_def new_simulation_job_def Let_def on_log_head
          newest_first_def)
qed

lemma ids_on_log: "map job_id (on_log i l js) = map job_id js"
  by (simp add: on_log_def)

lemma step_newest_first:
  assumes "newest_first (jobs s)" "clock_ahead a s" "step a s = Inr s'"
  shows "newest_first (jobs s')"
proof (cases a)
  case (Poll res)
  with assms show ?thesis
    by (auto simp: fetchJobsList_def Let_def newest_first_merge split: sum.splits)
next
  case (Create task_text repo persona_text useSearch env)
  show ?thesis
  proof (cases "falls_back env s")
    case True
    with assms(2) Create have ahead: "list_all (\<lambda>j. created_at j \<le> now_ms env) (jobs s)" by simp
    have "s' = simulation_fallback task_text repo persona_text useSearch env s
          \<or> s' = simulation_fallback task_text repo persona_text useSearch env
                   (s\<lparr>api_calls := api_calls s @ [CreateJob task_text repo]\<rparr>)"
      using assms(3) Create True
      by (auto simp: handleCreateJob_def falls_back_def Let_def split: if_splits sum.splits)
    then show ?thesis
    proof
      assume "s' = simulation_fallback task_text repo persona_text useSearch env s"
      with newest_first_fallback [OF assms(1) ahead] show ?thesis by simp
    next
      let ?c = "s\<lparr>api_calls := api_calls s @ [CreateJob task_text repo]\<rparr>"
      assume e: "s' = simulation_fallback task_text repo persona_text useSearch env ?c"
      from assms(1) ahead have "newest_first (jobs ?c)" "list_all (\<lambda>j. created_at j \<le> now_ms env) (jobs ?c)"
        by simp_all
      from newest_first_fallback [OF this] e show ?thesis by simp
    qed
  next
    case False
    then obtain new_id where c: "isBackendOnline s" "createJob (create_response env) = Inr new_id"
      by (cases "createJob (create_response env)") (auto simp: falls_back_def)
    with assms(1,3) Create show ?thesis
      by (auto simp: handleCreateJob_def fetchJobsList_def Let_def newest_first_merge
            split: sum.splits)
  qed
next
  case (Delete i confirmed)
  with assms show ?thesis
    by (auto simp: handleDeleteJob_def newest_first_def sorted_wrt_filter)
next
  case (Select i)
  with assms show ?thesis by auto
next
  case (SimLog i l)
  with assms show ?thesis by (auto simp: newest_first_on_log)
next
  case (SimComplete i fs)
  with assms show ?thesis by (auto simp: newest_first_on_complete)
qed

lemma run_newest_first:
  "newest_first (jobs s) \<Longrightarrow> clocks_ahead acts s \<Longrightarrow>
     \<exists>s'. run acts s = Inr s' \<and> newest_first (jobs s')"
proof (induction acts arbitrary: s)
  case Nil
  then show ?case by simp
next
  case (Cons a acts)
  from step_total obtain s1 where s1: "step a s = Inr s1" by blast
  with Cons.prems(2) have c: "clock_ahead a s" "clocks_ahead acts s1" by simp_all
  from step_newest_first [OF Cons.prems(1) c(1) s1] have "newest_first (jobs s1)" .
  from Cons.IH [OF this c(2)] s1 show ?case by simp
qed

text \<open>
  C9, as the code has it. The merge always leaves the list ordered by creation time,
  latest first, and jobs of equal creation time keep their order. A locally created job is
  put at the head without sorting and the jobs already listed keep their order behind it;
  so the list of a run is ordered latest first provided that, at every creation that falls
  back to a simulation, the browser's clock is not behind the creation time of any job
  already listed.
\<close>

theorem list_order_invariant:
  "newest_first (merge_jobs prev data)
   \<and> map job_id (jobs (simulation_fallback task_text repo persona_text useSearch env s))
       = ((ascii ''sim-'') @ random_suffix env) # map job_id (jobs s)
   \<and> (newest_first (jobs s) \<and> clocks_ahead acts s \<longrightarrow>
        (\<exists>s'. run acts s = Inr s' \<and> newest_first (jobs s')))
   \<and> filter (\<lambda>j. created_at j = t) (sort_jobs js) = filter (\<lambda>j. created_at j = t) js"
proof (intro conjI impI)
  show "newest_first (merge_jobs prev data)" by (rule newest_first_merge)
  have "filter (\<lambda>j. - created_at j = - t) (sort_key (\<lambda>j. - created_at j) js)
        = filter (\<lambda>j. - created_at j = - t) js"
    by (rule sort_key_stable)
  then show "filter (\<lambda>j. created_at j = t) (sort_jobs js) = filter (\<lambda>j. created_at j = t) js"
    by (simp add: sort_jobs_def)
  show "map job_id (jobs (simulation_fallback task_text repo persona_text useSearch env s))
       = ((ascii ''sim-'') @ random_suffix env) # map job_id (jobs s)"
    by (simp add: simulation_fallback_def new_simulation_job_def Let_def on_log_head ids_on_log)
next
  assume "newest_first (jobs s) \<and> clocks_ahead acts s"
  then show "\<exists>s'. run acts s = Inr s' \<and> newest_first (jobs s')"
    using run_newest_first by blast
qed

lemmas run_eval = fetchJobsList_def listJobs_def createJob_def merge_jobs_def sort_jobs_def
  handleCreateJob_def simulation_fallback_def new_simulation_job_def on_log_def
  initial_state_def sample_job_def sample_env_def falls_back_def newest_first_def Let_def

theorem list_order_invariant_witness:
  "newest_first (jobs initial_state)
   \<and> clocks_ahead [Poll (Response True (Inr [sample_job (ascii ''a1'') 9 None])),
                    Create (ascii ''demo'') None None None (sample_env (NetworkError (ascii ''down'')) 12)]
        initial_state
   \<and> (\<exists>s'. run [Poll (Response True (Inr [sample_job (ascii ''a1'') 9 None])),
                 Create (ascii ''demo'') None None None (sample_env (NetworkError (ascii ''down'')) 12)]
             initial_state = Inr s'
          \<and> newest_first (jobs s'))"
proof -
  let ?acts = "[Poll (Response True (Inr [sample_job (ascii ''a1'') 9 None])),
                Create (ascii ''demo'') None None None (sample_env (NetworkError (ascii ''down'')) 12)]"
  have n: "newest_first (jobs initial_state)" by (simp add: initial_state_def newest_first_def)
  have c: "clocks_ahead ?acts initial_state" by (simp add: run_eval)
  from list_order_invariant [of _ _ _ _ _ _ _ initial_state ?acts] n c show ?thesis by blast
qed

text \<open>
  The server lists a job stamped 100; the user then creates a job while the create
  request fails and the browser's clock reads 50. The new job stands first, before the
  later one.
\<close>

theorem list_order_counterexample:
  "\<not> isl (run [Poll (Response True (Inr [sample_job (ascii ''a1'') 100 None])),
               Create (ascii ''demo'') None None None (sample_env (NetworkError (ascii ''down'')) 50)]
           initial_state)
   \<and> map created_at (jobs (projr (run [Poll (Response True (Inr [sample_job (ascii ''a1'') 100 None])),
               Create (ascii ''demo'') None None None (sample_env (NetworkError (ascii ''down'')) 50)]
           initial_state))) = [50, 100]
   \<and> \<not> newest_first (jobs (projr (run [Poll (Response True (Inr [sample_job (ascii ''a1'') 100 None])),
               Create (ascii ''demo'') None None None (sample_env (NetworkError (ascii ''down'')) 50)]
           initial_state)))"
  by (simp add: run_eval)

end
